theory Spec2Isabelle
  imports Main "HOL-Library.Word"
begin

section \<open>Strings of the scanner\<close>

text \<open>
  The scanner (\<^verbatim>\<open>src/scanner.ts\<close>, compiled to \<^verbatim>\<open>lib/cli.js\<close>) works on JavaScript
  strings: sequences of 16-bit code units. A code unit is a \<open>16 word\<close>; \<open>length\<close> counts
  what \<^verbatim>\<open>String.prototype.length\<close> counts. Literals of the source are written with
  \<open>str\<close>, which embeds the characters of an Isabelle string as code units.
\<close>

type_synonym jschar = "16 word"
type_synonym jsstring = "jschar list"

definition str :: "string \<Rightarrow> jsstring" where
  "str s = map (\<lambda>c. of_nat (of_char c)) s"

definition NL :: jschar where "NL = 0x0A"
definition HYPHEN :: jschar where "HYPHEN = 0x2D"
definition COLON :: jschar where "COLON = 0x3A"
definition COMMA :: jschar where "COMMA = 0x2C"
definition DQUOTE :: jschar where "DQUOTE = 0x22"
definition SQUOTE :: jschar where "SQUOTE = 0x27"

text \<open>
  The class \<^verbatim>\<open>\s\<close> of a regular expression, which is also what \<^verbatim>\<open>trim()\<close> strips:
  WhiteSpace and LineTerminator of ECMAScript.
\<close>

definition isSpace :: "jschar \<Rightarrow> bool" where
  "isSpace c \<longleftrightarrow>
     c = 0x09 \<or> c = 0x0A \<or> c = 0x0B \<or> c = 0x0C \<or> c = 0x0D \<or> c = 0x20 \<or> c = 0xA0
     \<or> c = 0x1680 \<or> (0x2000 \<le> c \<and> c \<le> 0x200A) \<or> c = 0x2028 \<or> c = 0x2029
     \<or> c = 0x202F \<or> c = 0x205F \<or> c = 0x3000 \<or> c = 0xFEFF"

text \<open>The class \<^verbatim>\<open>\w\<close>: ASCII letters, digits and the underscore.\<close>

definition isWord :: "jschar \<Rightarrow> bool" where
  "isWord c \<longleftrightarrow>
     (0x30 \<le> c \<and> c \<le> 0x39) \<or> (0x41 \<le> c \<and> c \<le> 0x5A) \<or> c = 0x5F
     \<or> (0x61 \<le> c \<and> c \<le> 0x7A)"

text \<open>
  The dot: without the \<^verbatim>\<open>s\<close> flag it matches every code unit except the four line
  terminators; with the flag it matches every code unit.
\<close>

definition isDot :: "jschar \<Rightarrow> bool" where
  "isDot c \<longleftrightarrow> \<not> (c = 0x0A \<or> c = 0x0D \<or> c = 0x2028 \<or> c = 0x2029)"

definition isAny :: "jschar \<Rightarrow> bool" where
  "isAny c \<longleftrightarrow> True"

definition trim :: "jsstring \<Rightarrow> jsstring" where
  "trim s = rev (dropWhile isSpace (rev (dropWhile isSpace s)))"

text \<open>\<^verbatim>\<open>s.split(sep)\<close> for a separator of one code unit: never the empty list.\<close>

fun splitOn :: "jschar \<Rightarrow> jsstring \<Rightarrow> jsstring list" where
  "splitOn sep [] = [[]]"
| "splitOn sep (c # cs) =
     (if c = sep then [] # splitOn sep cs
      else (case splitOn sep cs of [] \<Rightarrow> [[c]] | l # ls \<Rightarrow> (c # l) # ls))"

fun startsWith :: "jsstring \<Rightarrow> jsstring \<Rightarrow> bool" where
  "startsWith s [] = True"
| "startsWith [] (p # ps) = False"
| "startsWith (c # cs) (p # ps) = (c = p \<and> startsWith cs ps)"

definition endsWith :: "jsstring \<Rightarrow> jsstring \<Rightarrow> bool" where
  "endsWith s p = startsWith (rev s) (rev p)"

text \<open>\<^verbatim>\<open>s.includes(p)\<close>: \<open>p\<close> occurs in \<open>s\<close> as a substring (the empty string always does).\<close>

fun includesStr :: "jsstring \<Rightarrow> jsstring \<Rightarrow> bool" where
  "includesStr [] p = (p = [])"
| "includesStr (c # cs) p = (startsWith (c # cs) p \<or> includesStr cs p)"

text \<open>
  \<^verbatim>\<open>s.replace(p, '')\<close> for a string pattern: the first occurrence of \<open>p\<close> is removed,
  and \<open>s\<close> is returned as it is when \<open>p\<close> does not occur.
\<close>

fun removeFirst :: "jsstring \<Rightarrow> jsstring \<Rightarrow> jsstring" where
  "removeFirst p [] = []"
| "removeFirst p (c # cs) =
     (if startsWith (c # cs) p then drop (length p) (c # cs) else c # removeFirst p cs)"

section \<open>Backtracking matchers for the regular expressions of the source\<close>

text \<open>
  Each regular expression of the source is transcribed piece by piece with the
  combinators below. A combinator takes the rest of the input and a continuation that
  matches the rest of the pattern; it returns the first success in the order in which a
  backtracking matcher tries the alternatives (greedy: longest first; lazy: shortest
  first). Every quantifier of the source ranges over a class of single code units.
\<close>

fun lit :: "jsstring \<Rightarrow> jsstring \<Rightarrow> (jsstring \<Rightarrow> 'r option) \<Rightarrow> 'r option" where
  "lit [] s k = k s"
| "lit (p # ps) [] k = None"
| "lit (p # ps) (c # cs) k = (if c = p then lit ps cs k else None)"

fun cls :: "(jschar \<Rightarrow> bool) \<Rightarrow> jsstring \<Rightarrow> (jsstring \<Rightarrow> 'r option) \<Rightarrow> 'r option" where
  "cls P [] k = None"
| "cls P (c # cs) k = (if P c then k cs else None)"

text \<open>\<^verbatim>\<open>X*\<close>, greedy.\<close>

fun starG :: "(jschar \<Rightarrow> bool) \<Rightarrow> jsstring \<Rightarrow> (jsstring \<Rightarrow> 'r option) \<Rightarrow> 'r option" where
  "starG P [] k = k []"
| "starG P (c # cs) k =
     (if P c then (case starG P cs k of Some r \<Rightarrow> Some r | None \<Rightarrow> k (c # cs))
      else k (c # cs))"

text \<open>\<^verbatim>\<open>X+\<close>, greedy.\<close>

definition plusG :: "(jschar \<Rightarrow> bool) \<Rightarrow> jsstring \<Rightarrow> (jsstring \<Rightarrow> 'r option) \<Rightarrow> 'r option" where
  "plusG P s k = cls P s (\<lambda>s'. starG P s' k)"

text \<open>\<^verbatim>\<open>X*?\<close>, lazy.\<close>

fun starL :: "(jschar \<Rightarrow> bool) \<Rightarrow> jsstring \<Rightarrow> (jsstring \<Rightarrow> 'r option) \<Rightarrow> 'r option" where
  "starL P [] k = k []"
| "starL P (c # cs) k =
     (case k (c # cs) of Some r \<Rightarrow> Some r
      | None \<Rightarrow> if P c then starL P cs k else None)"

text \<open>
  The capturing forms \<^verbatim>\<open>(X*)\<close>, \<^verbatim>\<open>(X+)\<close> and \<^verbatim>\<open>(X*?)\<close>: the continuation also
  receives the captured text (\<open>acc\<close> is what the group holds so far).
\<close>

fun starGcap :: "(jschar \<Rightarrow> bool) \<Rightarrow> jsstring \<Rightarrow> jsstring \<Rightarrow>
    (jsstring \<Rightarrow> jsstring \<Rightarrow> 'r option) \<Rightarrow> 'r option" where
  "starGcap P acc [] k = k acc []"
| "starGcap P acc (c # cs) k =
     (if P c then (case starGcap P (acc @ [c]) cs k of Some r \<Rightarrow> Some r
                   | None \<Rightarrow> k acc (c # cs))
      else k acc (c # cs))"

fun plusGcap :: "(jschar \<Rightarrow> bool) \<Rightarrow> jsstring \<Rightarrow>
    (jsstring \<Rightarrow> jsstring \<Rightarrow> 'r option) \<Rightarrow> 'r option" where
  "plusGcap P [] k = None"
| "plusGcap P (c # cs) k = (if P c then starGcap P [c] cs k else None)"

fun starLcap :: "(jschar \<Rightarrow> bool) \<Rightarrow> jsstring \<Rightarrow> jsstring \<Rightarrow>
    (jsstring \<Rightarrow> jsstring \<Rightarrow> 'r option) \<Rightarrow> 'r option" where
  "starLcap P acc [] k = k acc []"
| "starLcap P acc (c # cs) k =
     (case k acc (c # cs) of Some r \<Rightarrow> Some r
      | None \<Rightarrow> if P c then starLcap P (acc @ [c]) cs k else None)"

text \<open>\<^verbatim>\<open>$\<close> without the \<^verbatim>\<open>m\<close> flag: the end of the input.\<close>

definition eos :: "jsstring \<Rightarrow> 'r \<Rightarrow> 'r option" where
  "eos s r = (if s = [] then Some r else None)"

section \<open>Front matter\<close>

text \<open>
  \<^verbatim>\<open>/^---\s*\n(.*?)\n---\s*\n/s\<close>. The pattern is anchored, so a match starts at index 0.
  The result is the text of group 1 and the input that follows the match.
\<close>

definition yamlPattern :: "jsstring \<Rightarrow> (jsstring \<times> jsstring) option" where
  "yamlPattern content =
     lit (str ''---'') content (\<lambda>s1.
     starG isSpace s1 (\<lambda>s2.
     cls (\<lambda>c. c = NL) s2 (\<lambda>s3.
     starLcap isAny [] s3 (\<lambda>g s4.
     lit (NL # str ''---'') s4 (\<lambda>s5.
     starG isSpace s5 (\<lambda>s6.
     cls (\<lambda>c. c = NL) s6 (\<lambda>s7. Some (g, s7))))))))"

text \<open>\<^verbatim>\<open>/^\s+-\s+(.+)$/\<close>: the text of group 1.\<close>

definition listMatch :: "jsstring \<Rightarrow> jsstring option" where
  "listMatch line =
     plusG isSpace line (\<lambda>s1.
     cls (\<lambda>c. c = HYPHEN) s1 (\<lambda>s2.
     plusG isSpace s2 (\<lambda>s3.
     plusGcap isDot s3 (\<lambda>g s4. eos s4 g))))"

text \<open>\<^verbatim>\<open>/^(\w+):\s*(.*)$/\<close>: the texts of groups 1 and 2.\<close>

definition kvMatch :: "jsstring \<Rightarrow> (jsstring \<times> jsstring) option" where
  "kvMatch line =
     plusGcap isWord line (\<lambda>key s1.
     cls (\<lambda>c. c = COLON) s1 (\<lambda>s2.
     starG isSpace s2 (\<lambda>s3.
     starGcap isDot [] s3 (\<lambda>v s4. eos s4 (key, v)))))"

text \<open>
  The values of the metadata object: a string, an array of strings, or \<^verbatim>\<open>undefined\<close>
  for a property that is read but absent.
\<close>

datatype js_value = Undefined | Str jsstring | Arr "jsstring list"

text \<open>
  The object \<^verbatim>\<open>result\<close> is the map of its own properties. An assignment
  \<^verbatim>\<open>result[key] = value\<close> creates or overwrites the own property \<open>key\<close>, except for the
  key \<^verbatim>\<open>__proto__\<close>, for which the object literal's prototype has a setter, so no own
  property is created. The properties the scanners read (\<^verbatim>\<open>name\<close>, \<^verbatim>\<open>description\<close>,
  \<^verbatim>\<open>tools\<close>, \<^verbatim>\<open>subagents\<close>, \<^verbatim>\<open>skills\<close>, \<^verbatim>\<open>model\<close>, \<^verbatim>\<open>argument-hint\<close>) are
  not properties of any prototype, so reading them is a lookup in this map.
\<close>

type_synonym metadata = "jsstring \<rightharpoonup> js_value"

definition assign :: "metadata \<Rightarrow> jsstring \<Rightarrow> js_value \<Rightarrow> metadata" where
  "assign m key v = (if key = str ''__proto__'' then m else m(key \<mapsto> v))"

definition getProp :: "metadata \<Rightarrow> jsstring \<Rightarrow> js_value" where
  "getProp m key = (case m key of None \<Rightarrow> Undefined | Some v \<Rightarrow> v)"

record parse_state =
  result :: metadata
  currentKey :: "jsstring option"
  currentList :: "jsstring list"

text \<open>Truthiness of \<^verbatim>\<open>currentKey\<close> (\<^verbatim>\<open>string | null\<close>): a non-empty string.\<close>

definition keySet :: "jsstring option \<Rightarrow> bool" where
  "keySet ck = (case ck of None \<Rightarrow> False | Some k \<Rightarrow> k \<noteq> [])"

text \<open>\<^verbatim>\<open>value.slice(1, -1)\<close> when \<open>value\<close> starts and ends with the same kind of quote.\<close>

definition unquote :: "jsstring \<Rightarrow> jsstring" where
  "unquote v =
     (if (startsWith v [DQUOTE] \<and> endsWith v [DQUOTE]) \<or>
         (startsWith v [SQUOTE] \<and> endsWith v [SQUOTE])
      then butlast (tl v) else v)"

text \<open>Saving the list collected for the current key (``save previous list if exists'').\<close>

definition flush :: "parse_state \<Rightarrow> parse_state" where
  "flush st =
     (if keySet (currentKey st) \<and> currentList st \<noteq> []
      then st\<lparr>result := assign (result st) (the (currentKey st)) (Arr (currentList st)),
              currentList := []\<rparr>
      else st)"

text \<open>One iteration of the loop over the lines of the block.\<close>

definition parseLine :: "parse_state \<Rightarrow> jsstring \<Rightarrow> parse_state" where
  "parseLine st line =
     (if trim line = [] then st
      else case (if keySet (currentKey st) then listMatch line else None) of
        Some item \<Rightarrow> st\<lparr>currentList := currentList st @ [trim item]\<rparr>
      | None \<Rightarrow>
         (case kvMatch line of
            None \<Rightarrow> st
          | Some (key, raw) \<Rightarrow>
              let st1 = flush st; v = trim raw in
              if v \<noteq> [] then st1\<lparr>result := assign (result st1) key (Str (unquote v)),
                                  currentKey := None\<rparr>
              else st1\<lparr>currentKey := Some key\<rparr>))"

definition initState :: parse_state where
  "initState = \<lparr>result = Map.empty, currentKey = None, currentList = []\<rparr>"

text \<open>The part of \<^verbatim>\<open>parseYamlFrontmatter\<close> that follows the match: \<open>yamlContent\<close> is group 1.\<close>

definition parseBlock :: "jsstring \<Rightarrow> metadata" where
  "parseBlock yamlContent =
     (let st = foldl parseLine initState (splitOn NL yamlContent) in
      if keySet (currentKey st) \<and> currentList st \<noteq> []
      then assign (result st) (the (currentKey st)) (Arr (currentList st))
      else result st)"

definition parseYamlFrontmatter :: "jsstring \<Rightarrow> metadata" where
  "parseYamlFrontmatter content =
     (case yamlPattern content of
        None \<Rightarrow> Map.empty
      | Some (yamlContent, rest) \<Rightarrow> parseBlock yamlContent)"

text \<open>
  \<^verbatim>\<open>content.replace(yamlPattern, '').trim()\<close>: the pattern is anchored at the start, so
  removing the match leaves the input that follows it.
\<close>

definition extractBodyContent :: "jsstring \<Rightarrow> jsstring" where
  "extractBodyContent content =
     trim (case yamlPattern content of None \<Rightarrow> content | Some (yamlContent, rest) \<Rightarrow> rest)"

section \<open>List fields and truthiness\<close>

definition parseListField :: "js_value \<Rightarrow> jsstring list" where
  "parseListField v =
     (case v of
        Arr xs \<Rightarrow> xs
      | Str s \<Rightarrow> filter (\<lambda>x. x \<noteq> []) (map trim (splitOn COMMA s))
      | Undefined \<Rightarrow> [])"

definition truthy :: "js_value \<Rightarrow> bool" where
  "truthy v = (case v of Undefined \<Rightarrow> False | Str s \<Rightarrow> s \<noteq> [] | Arr xs \<Rightarrow> True)"

text \<open>\<^verbatim>\<open>v || d\<close> for a string \<open>d\<close>.\<close>

definition orElse :: "js_value \<Rightarrow> jsstring \<Rightarrow> js_value" where
  "orElse v d = (if truthy v then v else Str d)"

section \<open>Nodes and edges\<close>

datatype node_type = AgentType | SkillType | CommandType

datatype scope_tag = Local | Global

datatype edge_type = Uses | Calls

text \<open>
  The interfaces declare \<^verbatim>\<open>name\<close>, \<^verbatim>\<open>description\<close>, \<^verbatim>\<open>model\<close> and
  \<^verbatim>\<open>argumentHint\<close> as strings, but the scanners fill them with \<^verbatim>\<open>metadata.x || d\<close>,
  which is an array when the front matter gives the key a list. The fields therefore hold
  a \<open>js_value\<close>.
\<close>

record graph_node =
  node_id :: jsstring
  node_type :: node_type
  name :: js_value
  description :: js_value
  filePath :: jsstring
  scope :: scope_tag

record agent_node = graph_node +
  tools :: "jsstring list"
  model :: js_value
  subagents :: "jsstring list"
  skills :: "jsstring list"
  systemPrompt :: jsstring

record skill_node = graph_node +
  triggers :: "jsstring list"
  hasScripts :: bool
  hasWebapp :: bool

record command_node = graph_node +
  argumentHint :: js_value

record graph_edge =
  source :: jsstring
  target :: jsstring
  edge_type :: edge_type

section \<open>Errors\<close>

text \<open>
  What rejects the promise of \<^verbatim>\<open>scanProject\<close>: the three errors it throws itself when a
  \<^verbatim>\<open>.claude\<close> folder is missing (with the paths of their messages), and the exceptions
  that no \<^verbatim>\<open>catch\<close> of the source intercepts: the system error of \<^verbatim>\<open>fs.readdir\<close> on a
  \<^verbatim>\<open>skills\<close> directory, the TypeError of \<^verbatim>\<open>toLowerCase\<close> on a name that is not a string,
  and the system error of creating the output directory or writing the output file.
\<close>

datatype error =
    TypeError
  | ReaddirError
  | NoLocalFolder jsstring
  | NoGlobalFolder jsstring
  | NoFolder jsstring jsstring
  | WriteError

section \<open>Entity scanners\<close>

text \<open>
  What a scanner gets from the file system is an input of the model. For a markdown file
  listed by \<^verbatim>\<open>glob('*.md')\<close>: its name \<open>fileName\<close>, \<open>stem\<close> for
  \<^verbatim>\<open>path.parse(file).name\<close>, \<open>relPath\<close> for \<^verbatim>\<open>path.relative(basePath, filePath)\<close>, and
  \<open>content\<close> for what \<^verbatim>\<open>readFile\<close> returns on the resolved path (\<open>None\<close> when it
  throws). A directory that cannot be accessed is \<open>None\<close>.
\<close>

record md_file =
  fileName :: jsstring
  stem :: jsstring
  relPath :: jsstring
  content :: "jsstring option"

definition agentOf :: "scope_tag \<Rightarrow> md_file \<Rightarrow> jsstring \<Rightarrow> agent_node" where
  "agentOf sc f text =
     (let metadata = parseYamlFrontmatter text;
          body = extractBodyContent text
      in \<lparr>node_id = str ''agent:'' @ stem f,
          node_type = AgentType,
          name = orElse (getProp metadata (str ''name'')) (stem f),
          description = orElse (getProp metadata (str ''description'')) [],
          filePath = (if sc = Global then str ''~/.claude/agents/'' @ fileName f else relPath f),
          scope = sc,
          tools = parseListField (getProp metadata (str ''tools'')),
          model = orElse (getProp metadata (str ''model'')) [],
          subagents = parseListField (getProp metadata (str ''subagents'')),
          skills = parseListField (getProp metadata (str ''skills'')),
          systemPrompt =
            (if length body > 500 then take 500 body @ str ''...'' else body)\<rparr>)"

text \<open>A file that cannot be read is warned about and skipped.\<close>

definition scanAgents :: "md_file list option \<Rightarrow> scope_tag \<Rightarrow> agent_node list" where
  "scanAgents agentsDir sc =
     (case agentsDir of
        None \<Rightarrow> []
      | Some agentFiles \<Rightarrow>
          concat (map (\<lambda>f. case content f of None \<Rightarrow> [] | Some text \<Rightarrow> [agentOf sc f text])
                      agentFiles))"

text \<open>
  The regular expressions of the skill scanner carry the \<^verbatim>\<open>i\<close> flag. Without the
  \<^verbatim>\<open>u\<close> flag two code units match when they have the same canonical form, which for
  the characters of this pattern (ASCII letters and punctuation, four Hangul syllables)
  is the ASCII upper case: a code unit outside ASCII is never folded to an ASCII one.
\<close>

definition canon :: "jschar \<Rightarrow> jschar" where
  "canon c = (if 0x61 \<le> c \<and> c \<le> 0x7A then c - 0x20 else c)"

fun litCI :: "jsstring \<Rightarrow> jsstring \<Rightarrow> (jsstring \<Rightarrow> 'r option) \<Rightarrow> 'r option" where
  "litCI [] s k = k s"
| "litCI (p # ps) [] k = None"
| "litCI (p # ps) (c # cs) k = (if canon c = canon p then litCI ps cs k else None)"

text \<open>\<^verbatim>\<open>X?\<close>, greedy.\<close>

fun optG :: "(jschar \<Rightarrow> bool) \<Rightarrow> jsstring \<Rightarrow> (jsstring \<Rightarrow> 'r option) \<Rightarrow> 'r option" where
  "optG P [] k = k []"
| "optG P (c # cs) k =
     (if P c then (case k cs of Some r \<Rightarrow> Some r | None \<Rightarrow> k (c # cs)) else k (c # cs))"

text \<open>An unanchored pattern is tried at every index, from the left.\<close>

fun search :: "(jsstring \<Rightarrow> 'r option) \<Rightarrow> jsstring \<Rightarrow> 'r option" where
  "search m [] = m []"
| "search m (c # cs) = (case m (c # cs) of Some r \<Rightarrow> Some r | None \<Rightarrow> search m cs)"

text \<open>
  The lookahead \<^verbatim>\<open>(?=\n##|\Z)\<close>. In a JavaScript pattern without the \<^verbatim>\<open>u\<close> flag
  \<^verbatim>\<open>\Z\<close> is an identity escape: it stands for the letter \<^verbatim>\<open>Z\<close> (here in either
  case), not for the end of the input.
\<close>

definition sectionEnd :: "jsstring \<Rightarrow> bool" where
  "sectionEnd s \<longleftrightarrow>
     litCI (NL # str ''##'') s (\<lambda>s'. Some ()) \<noteq> None \<or>
     cls (\<lambda>c. canon c = canon 0x5A) s (\<lambda>s'. Some ()) \<noteq> None"

text \<open>
  The part of the pattern after the heading's marker:
  \<^verbatim>\<open>.*?\n(.*?)(?=\n##|\Z)\<close>, flags \<^verbatim>\<open>is\<close>.
\<close>

definition triggerBody :: "jsstring \<Rightarrow> jsstring option" where
  "triggerBody s =
     starL isAny s (\<lambda>s1.
     cls (\<lambda>c. c = NL) s1 (\<lambda>s2.
     starLcap isAny [] s2 (\<lambda>g s3. if sectionEnd s3 then Some g else None)))"

text \<open>
  \<^verbatim>\<open>/##\s*(?:Triggers?|\<close>\<open>U+C0AC U+C6A9\<close>\<^verbatim>\<open>\s*\<close>\<open>U+C2DC U+C810\<close>\<^verbatim>\<open>).*?\n(.*?)(?=\n##|\Z)/is\<close>
  at one index: the text of group 1. The second alternative is the Korean heading.
\<close>

definition triggerAt :: "jsstring \<Rightarrow> jsstring option" where
  "triggerAt s =
     litCI (str ''##'') s (\<lambda>s1.
     starG isSpace s1 (\<lambda>s2.
       (case litCI (str ''Trigger'') s2 (\<lambda>s3.
               optG (\<lambda>c. canon c = canon 0x73) s3 triggerBody) of
          Some r \<Rightarrow> Some r
        | None \<Rightarrow>
            litCI [0xC0AC, 0xC6A9] s2 (\<lambda>s3.
            starG isSpace s3 (\<lambda>s4.
            litCI [0xC2DC, 0xC810] s4 triggerBody)))))"

definition triggerMatch :: "jsstring \<Rightarrow> jsstring option" where
  "triggerMatch body = search triggerAt body"

text \<open>\<^verbatim>\<open>line.replace(/^-\s*/, '')\<close>.\<close>

definition stripHyphen :: "jsstring \<Rightarrow> jsstring" where
  "stripHyphen line =
     (case lit [HYPHEN] line (\<lambda>s1. starG isSpace s1 Some) of
        None \<Rightarrow> line
      | Some rest \<Rightarrow> rest)"

definition extractTriggers :: "jsstring \<Rightarrow> jsstring list" where
  "extractTriggers body =
     (case triggerMatch body of
        None \<Rightarrow> []
      | Some g \<Rightarrow>
          take 5 (map (\<lambda>line. trim (stripHyphen line))
                      (filter (\<lambda>line. startsWith (trim line) [HYPHEN])
                              (splitOn NL (trim g)))))"

text \<open>
  An entry of the \<^verbatim>\<open>skills\<close> directory: its name, whether it is a directory (for a
  symbolic link: whether it resolves to one), the content of its \<^verbatim>\<open>SKILL.md\<close> (\<open>None\<close>
  when the file is missing or cannot be read), the relative path of that file, and
  whether the \<^verbatim>\<open>scripts\<close> and \<^verbatim>\<open>webapp\<close> subdirectories can be accessed.
\<close>

record skill_entry =
  entryName :: jsstring
  isDir :: bool
  skillFile :: "jsstring option"
  skillRelPath :: jsstring
  scriptsDir :: bool
  webappDir :: bool

definition skillOf :: "scope_tag \<Rightarrow> skill_entry \<Rightarrow> jsstring \<Rightarrow> skill_node" where
  "skillOf sc e text =
     (let metadata = parseYamlFrontmatter text;
          body = extractBodyContent text
      in \<lparr>node_id = str ''skill:'' @ entryName e,
          node_type = SkillType,
          name = orElse (getProp metadata (str ''name'')) (entryName e),
          description = orElse (getProp metadata (str ''description'')) [],
          filePath = (if sc = Global
                      then str ''~/.claude/skills/'' @ entryName e @ str ''/SKILL.md''
                      else skillRelPath e),
          scope = sc,
          triggers = extractTriggers body,
          hasScripts = scriptsDir e,
          hasWebapp = webappDir e\<rparr>)"

text \<open>
  The \<^verbatim>\<open>skills\<close> directory as the scanner finds it: \<^verbatim>\<open>fs.access\<close> fails on it (the
  scanner returns no skills); \<^verbatim>\<open>fs.access\<close> succeeds but \<^verbatim>\<open>fs.readdir\<close> throws, for
  example because the entry is a file (the call is outside every \<^verbatim>\<open>try\<close>, so the
  scanner throws); or \<^verbatim>\<open>fs.readdir\<close> returns its entries.
\<close>

datatype skills_dir = NoSkillsDir | Unlistable | Entries "skill_entry list"

definition scanSkills :: "skills_dir \<Rightarrow> scope_tag \<Rightarrow> error + skill_node list" where
  "scanSkills skillsDir sc =
     (case skillsDir of
        NoSkillsDir \<Rightarrow> Inr []
      | Unlistable \<Rightarrow> Inl ReaddirError
      | Entries entries \<Rightarrow>
          Inr (concat (map (\<lambda>e. if \<not> isDir e then []
                                else case skillFile e of None \<Rightarrow> []
                                     | Some text \<Rightarrow> [skillOf sc e text])
                           entries)))"

definition commandOf :: "scope_tag \<Rightarrow> md_file \<Rightarrow> jsstring \<Rightarrow> command_node" where
  "commandOf sc f text =
     (let metadata = parseYamlFrontmatter text
      in \<lparr>node_id = str ''command:'' @ stem f,
          node_type = CommandType,
          name = Str (str ''/'' @ stem f),
          description = orElse (getProp metadata (str ''description'')) [],
          filePath = (if sc = Global then str ''~/.claude/commands/'' @ fileName f else relPath f),
          scope = sc,
          argumentHint = orElse (getProp metadata (str ''argument-hint'')) []\<rparr>)"

definition scanCommands :: "md_file list option \<Rightarrow> scope_tag \<Rightarrow> command_node list" where
  "scanCommands commandsDir sc =
     (case commandsDir of
        None \<Rightarrow> []
      | Some commandFiles \<Rightarrow>
          concat (map (\<lambda>f. case content f of None \<Rightarrow> []
                           | Some text \<Rightarrow> [commandOf sc f text])
                      commandFiles))"

section \<open>Relationship engine\<close>

text \<open>The collector of \<^verbatim>\<open>findRelationships\<close>: the array \<open>edges\<close> and the set \<open>addedEdges\<close>.\<close>

record collector =
  edges :: "graph_edge list"
  addedEdges :: "jsstring set"

definition emptyCollector :: collector where
  "emptyCollector = \<lparr>edges = [], addedEdges = {}\<rparr>"

definition edgeKey :: "jsstring \<Rightarrow> jsstring \<Rightarrow> jsstring" where
  "edgeKey s t = s @ str ''->'' @ t"

definition addEdge :: "collector \<Rightarrow> jsstring \<Rightarrow> jsstring \<Rightarrow> edge_type \<Rightarrow> collector" where
  "addEdge c s t ty =
     (if edgeKey s t \<notin> addedEdges c
      then c\<lparr>edges := edges c @ [\<lparr>source = s, target = t, edge_type = ty\<rparr>],
              addedEdges := insert (edgeKey s t) (addedEdges c)\<rparr>
      else c)"

text \<open>
  The lookup maps. \<open>lower\<close> stands for \<^verbatim>\<open>String.prototype.toLowerCase\<close>, whose Unicode
  case tables are not part of the repository; it is a parameter, so what is proved holds
  for every case mapping. \<^verbatim>\<open>n.name.toLowerCase()\<close> throws a TypeError when \<open>name\<close> is
  not a string. \<open>pre\<close> is the prefix removed from the id (\<^verbatim>\<open>'agent:'\<close>, \<^verbatim>\<open>'skill:'\<close>,
  \<^verbatim>\<open>'command:'\<close>).
\<close>

fun buildMap :: "(jsstring \<Rightarrow> jsstring) \<Rightarrow> jsstring \<Rightarrow> ('a graph_node_scheme) list \<Rightarrow>
    (jsstring \<rightharpoonup> jsstring) \<Rightarrow> error + (jsstring \<rightharpoonup> jsstring)" where
  "buildMap lower pre [] m = Inr m"
| "buildMap lower pre (n # ns) m =
     (case name n of
        Str s \<Rightarrow>
          buildMap lower pre ns
            ((m(lower s \<mapsto> node_id n))(lower (removeFirst pre (node_id n)) \<mapsto> node_id n))
      | _ \<Rightarrow> Inl TypeError)"

text \<open>One name of a \<^verbatim>\<open>subagents\<close> or \<^verbatim>\<open>skills\<close> list: an edge when the lookup finds an id.\<close>

definition declaredEdge :: "(jsstring \<Rightarrow> jsstring) \<Rightarrow> (jsstring \<rightharpoonup> jsstring) \<Rightarrow> jsstring \<Rightarrow>
    edge_type \<Rightarrow> collector \<Rightarrow> jsstring \<Rightarrow> collector" where
  "declaredEdge lower m aid ty c nm =
     (case m (trim (lower nm)) of
        None \<Rightarrow> c
      | Some i \<Rightarrow> if i \<noteq> [] then addEdge c aid i ty else c)"

text \<open>First pass, one agent: the edges declared in its metadata.\<close>

definition declaredEdges :: "(jsstring \<Rightarrow> jsstring) \<Rightarrow> (jsstring \<rightharpoonup> jsstring) \<Rightarrow>
    (jsstring \<rightharpoonup> jsstring) \<Rightarrow> collector \<Rightarrow> agent_node \<Rightarrow> collector" where
  "declaredEdges lower agentMap skillMap c a =
     (let c1 = foldl (declaredEdge lower agentMap (node_id a) Calls) c (subagents a)
      in foldl (declaredEdge lower skillMap (node_id a) Uses) c1 (skills a))"

text \<open>
  Second pass, the loop over the skills (or the commands) for one agent whose file reads
  as \<open>text\<close> (already in lower case). The flag is \<open>False\<close> when an exception leaves the
  loop (a name that is not a string); the \<^verbatim>\<open>catch\<close> around the agent's iteration keeps
  the edges added so far.
\<close>

fun mentions :: "(jsstring \<Rightarrow> jsstring) \<Rightarrow> jsstring \<Rightarrow> jsstring \<Rightarrow> jsstring \<Rightarrow>
    ('a graph_node_scheme) list \<Rightarrow> collector \<Rightarrow> bool \<times> collector" where
  "mentions lower text aid pre [] c = (True, c)"
| "mentions lower text aid pre (n # ns) c =
     (case name n of
        Str s \<Rightarrow>
          mentions lower text aid pre ns
            (if includesStr text (lower s) \<or> includesStr text (removeFirst pre (node_id n))
             then addEdge c aid (node_id n) Uses else c)
      | _ \<Rightarrow> (False, c))"

text \<open>
  Second pass, one agent. \<open>readFile\<close> gives, for \<^verbatim>\<open>claudePath\<close> and the agent's
  \<^verbatim>\<open>filePath\<close>, the content of the file
  \<^verbatim>\<open>path.join(path.dirname(claudePath), agent.filePath)\<close>, or \<open>None\<close> when it cannot be
  read.
\<close>

definition contentEdges :: "(jsstring \<Rightarrow> jsstring) \<Rightarrow> (jsstring \<Rightarrow> jsstring \<Rightarrow> jsstring option) \<Rightarrow>
    jsstring \<Rightarrow> skill_node list \<Rightarrow> command_node list \<Rightarrow> collector \<Rightarrow> agent_node \<Rightarrow> collector" where
  "contentEdges lower readFile claudePath sks cmds c a =
     (case readFile claudePath (filePath a) of
        None \<Rightarrow> c
      | Some raw \<Rightarrow>
          let text = lower raw;
              r = mentions lower text (node_id a) (str ''skill:'') sks c
          in if fst r then snd (mentions lower text (node_id a) (str ''command:'') cmds (snd r))
             else snd r)"

definition findRelationships :: "(jsstring \<Rightarrow> jsstring) \<Rightarrow>
    (jsstring \<Rightarrow> jsstring \<Rightarrow> jsstring option) \<Rightarrow>
    agent_node list \<Rightarrow> skill_node list \<Rightarrow> command_node list \<Rightarrow> jsstring \<Rightarrow>
    error + graph_edge list" where
  "findRelationships lower readFile ags sks cmds claudePath =
     (case buildMap lower (str ''agent:'') ags Map.empty of
        Inl e \<Rightarrow> Inl e
      | Inr agentMap \<Rightarrow>
     (case buildMap lower (str ''skill:'') sks Map.empty of
        Inl e \<Rightarrow> Inl e
      | Inr skillMap \<Rightarrow>
     (case buildMap lower (str ''command:'') cmds Map.empty of
        Inl e \<Rightarrow> Inl e
      | Inr commandMap \<Rightarrow>
          let c1 = foldl (declaredEdges lower agentMap skillMap) emptyCollector ags;
              c2 = foldl (contentEdges lower readFile claudePath sks cmds) c1 ags
          in Inr (edges c2))))"

section \<open>Scope merger and orchestrator\<close>

definition mergeNodes :: "('a graph_node_scheme) list \<Rightarrow> ('a graph_node_scheme) list \<Rightarrow>
    ('a graph_node_scheme) list" where
  "mergeNodes localNodes globalNodes =
     (let localIds = set (map node_id localNodes);
          uniqueGlobalNodes = filter (\<lambda>n. node_id n \<notin> localIds) globalNodes
      in localNodes @ uniqueGlobalNodes)"

text \<open>\<^verbatim>\<open>ScanOptions\<close>: both fields are optional and default to \<^verbatim>\<open>true\<close>.\<close>

record scan_options =
  includeLocal :: "bool option"
  includeGlobal :: "bool option"

record graph_metadata =
  generatedAt :: jsstring
  projectPath :: jsstring
  projectName :: jsstring
  agentCount :: nat
  skillCount :: nat
  commandCount :: nat
  edgeCount :: nat
  globalAgentCount :: nat
  globalSkillCount :: nat
  globalCommandCount :: nat

datatype any_node = AgentNode agent_node | SkillNode skill_node | CommandNode command_node

fun any_id :: "any_node \<Rightarrow> jsstring" where
  "any_id (AgentNode a) = node_id a"
| "any_id (SkillNode s) = node_id s"
| "any_id (CommandNode c) = node_id c"

record graph_data =
  nodes :: "any_node list"
  graph_edges :: "graph_edge list"
  graph_meta :: graph_metadata

text \<open>The three subdirectories of one \<^verbatim>\<open>.claude\<close> folder, as the scanners read them.\<close>

record claude_dir =
  agentsDir :: "md_file list option"
  skillsDir :: skills_dir
  commandsDir :: "md_file list option"

text \<open>
  The environment of one call of \<^verbatim>\<open>scanProject\<close>: \<open>project\<close> is
  \<^verbatim>\<open>path.resolve(projectPath)\<close>, \<open>baseName\<close> is \<^verbatim>\<open>path.basename(project)\<close>, \<open>hasLocal\<close> and
  \<open>hasGlobal\<close> tell whether \<^verbatim>\<open>fs.access\<close> succeeds on the two roots, \<open>now\<close> is the
  time stamp, and \<open>canWrite\<close> tells whether creating the output directory and writing the
  file succeed.
\<close>

record scan_env =
  project :: jsstring
  baseName :: jsstring
  localClaudePath :: jsstring
  globalClaudePath :: jsstring
  hasLocal :: bool
  hasGlobal :: bool
  localDir :: claude_dir
  globalDir :: claude_dir
  now :: jsstring
  canWrite :: bool

text \<open>
  The value is the \<^verbatim>\<open>GraphData\<close> written to the output file; the promise of the source
  resolves to its \<^verbatim>\<open>metadata\<close>. A thrown error is \<open>Inl\<close>; the scopes are scanned in the
  order of the source, so an error of the local skills scan comes before one of the
  global skills scan, and both before the relationship engine and the write.
\<close>

definition scanProject :: "(jsstring \<Rightarrow> jsstring) \<Rightarrow> (jsstring \<Rightarrow> jsstring \<Rightarrow> jsstring option) \<Rightarrow>
    scan_env \<Rightarrow> scan_options \<Rightarrow> error + graph_data" where
  "scanProject lower readFile env options =
     (let incLocal = (case includeLocal options of None \<Rightarrow> True | Some b \<Rightarrow> b);
          incGlobal = (case includeGlobal options of None \<Rightarrow> True | Some b \<Rightarrow> b)
      in
      if incLocal \<and> \<not> hasLocal env \<and> \<not> incGlobal then Inl (NoLocalFolder (project env))
      else if incGlobal \<and> \<not> hasGlobal env \<and> \<not> incLocal
        then Inl (NoGlobalFolder (globalClaudePath env))
      else if \<not> hasLocal env \<and> \<not> hasGlobal env
        then Inl (NoFolder (project env) (globalClaudePath env))
      else
        let localAgents = (if incLocal \<and> hasLocal env
                           then scanAgents (agentsDir (localDir env)) Local else [])
        in
        (case (if incLocal \<and> hasLocal env
               then scanSkills (skillsDir (localDir env)) Local else Inr []) of
           Inl e \<Rightarrow> Inl e
         | Inr localSkills \<Rightarrow>
        (let localCommands = (if incLocal \<and> hasLocal env
                              then scanCommands (commandsDir (localDir env)) Local else []);
             globalAgents = (if incGlobal \<and> hasGlobal env
                             then scanAgents (agentsDir (globalDir env)) Global else [])
         in
        (case (if incGlobal \<and> hasGlobal env
               then scanSkills (skillsDir (globalDir env)) Global else Inr []) of
           Inl e \<Rightarrow> Inl e
         | Inr globalSkills \<Rightarrow>
        (let globalCommands = (if incGlobal \<and> hasGlobal env
                               then scanCommands (commandsDir (globalDir env)) Global else []);
             ags = mergeNodes localAgents globalAgents;
             sks = mergeNodes localSkills globalSkills;
             cmds = mergeNodes localCommands globalCommands
         in
        (case findRelationships lower readFile ags sks cmds (localClaudePath env) of
           Inl e \<Rightarrow> Inl e
         | Inr es \<Rightarrow>
             if \<not> canWrite env then Inl WriteError
             else Inr \<lparr>nodes = map AgentNode ags @ map SkillNode sks @ map CommandNode cmds,
                       graph_edges = es,
                       graph_meta =
                         \<lparr>generatedAt = now env,
                          projectPath = project env,
                          projectName = baseName env,
                          agentCount = length localAgents,
                          skillCount = length localSkills,
                          commandCount = length localCommands,
                          edgeCount = length es,
                          globalAgentCount = length globalAgents,
                          globalSkillCount = length globalSkills,
                          globalCommandCount = length globalCommands\<rparr>\<rparr>))))))"

section \<open>Notions used in the statements\<close>

text \<open>The errors that report a missing \<^verbatim>\<open>.claude\<close> folder.\<close>

definition missingRoot :: "error \<Rightarrow> bool" where
  "missingRoot e =
     (case e of NoLocalFolder p \<Rightarrow> True | NoGlobalFolder p \<Rightarrow> True | NoFolder p q \<Rightarrow> True
      | _ \<Rightarrow> False)"

text \<open>A scope is requested unless its option is given as \<^verbatim>\<open>false\<close>.\<close>

definition requested :: "bool option \<Rightarrow> bool" where
  "requested b = (b \<noteq> Some False)"

text \<open>A case mapping for the examples: ASCII letters to lower case.\<close>

definition asciiLower :: "jsstring \<Rightarrow> jsstring" where
  "asciiLower s = map (\<lambda>c. if 0x41 \<le> c \<and> c \<le> 0x5A then c + 0x20 else c) s"

text \<open>
  Offering a sequence of edges to the collector, starting from the empty one; the key of
  an edge; the collector's set holds exactly the keys of its edges, which are distinct.
\<close>

definition samePair :: "jsstring \<Rightarrow> jsstring \<Rightarrow> graph_edge \<Rightarrow> bool" where
  "samePair s t e \<longleftrightarrow> source e = s \<and> target e = t"

fun offer :: "collector \<Rightarrow> jsstring \<times> jsstring \<times> edge_type \<Rightarrow> collector" where
  "offer c (s, t, ty) = addEdge c s t ty"

definition collect :: "(jsstring \<times> jsstring \<times> edge_type) list \<Rightarrow> collector" where
  "collect os = foldl offer emptyCollector os"

definition keyOf :: "graph_edge \<Rightarrow> jsstring" where
  "keyOf e = edgeKey (source e) (target e)"

definition consistent :: "collector \<Rightarrow> bool" where
  "consistent c \<longleftrightarrow> addedEdges c = keyOf ` set (edges c) \<and> distinct (map keyOf (edges c))"

text \<open>
  A name of a \<^verbatim>\<open>subagents\<close> or \<^verbatim>\<open>skills\<close> list matches a node when, in lower case and
  trimmed, it is the node's display name or the stem of its id, in lower case. An agent
  with the names that match no node removed from its two lists. Node lists whose names
  are all strings. A collector whose edges lead from \<open>S\<close> to \<open>T\<close>.
\<close>

definition matchesNode :: "(jsstring \<Rightarrow> jsstring) \<Rightarrow> jsstring \<Rightarrow> jsstring \<Rightarrow>
    'a graph_node_scheme \<Rightarrow> bool" where
  "matchesNode lower pre nm n \<longleftrightarrow>
     (case name n of Str s \<Rightarrow> trim (lower nm) = lower s | _ \<Rightarrow> False)
     \<or> trim (lower nm) = lower (removeFirst pre (node_id n))"

definition known :: "(jsstring \<Rightarrow> jsstring) \<Rightarrow> jsstring \<Rightarrow> ('a graph_node_scheme) list \<Rightarrow>
    jsstring \<Rightarrow> bool" where
  "known lower pre ns nm = list_ex (matchesNode lower pre nm) ns"

definition dropUnresolved :: "(jsstring \<Rightarrow> jsstring) \<Rightarrow> agent_node list \<Rightarrow> skill_node list \<Rightarrow>
    agent_node \<Rightarrow> agent_node" where
  "dropUnresolved lower ags sks a =
     a\<lparr>subagents := filter (known lower (str ''agent:'') ags) (subagents a),
       skills := filter (known lower (str ''skill:'') sks) (skills a)\<rparr>"

definition stringNames :: "('a graph_node_scheme) list \<Rightarrow> bool" where
  "stringNames ns = list_all (\<lambda>n. case name n of Str s \<Rightarrow> True | _ \<Rightarrow> False) ns"

definition within :: "jsstring set \<Rightarrow> jsstring set \<Rightarrow> collector \<Rightarrow> bool" where
  "within S T c \<longleftrightarrow> (\<forall>e \<in> set (edges c). source e \<in> S \<and> target e \<in> T)"

text \<open>An example project: two local agent files, no global folder.\<close>

definition exFileA :: md_file where
  "exFileA = \<lparr>fileName = str ''a.md'', stem = str ''a'', relPath = str ''.claude/agents/a.md'',
      content = Some (str ''---\<newline>name: A\<newline>subagents: b, ghost\<newline>---\<newline>x'')\<rparr>"

definition exFileB :: md_file where
  "exFileB = \<lparr>fileName = str ''b.md'', stem = str ''b'', relPath = str ''.claude/agents/b.md'',
      content = Some (str ''helper'')\<rparr>"

definition exAgentA :: agent_node where
  "exAgentA = agentOf Local exFileA
      (str ''---\<newline>name: A\<newline>subagents: b, ghost\<newline>---\<newline>x'')"

definition exAgentB :: agent_node where
  "exAgentB = agentOf Local exFileB (str ''helper'')"

definition exEnv :: scan_env where
  "exEnv = \<lparr>project = str ''/p'', baseName = str ''p'', localClaudePath = str ''/p/.claude'',
     globalClaudePath = str ''/h/.claude'', hasLocal = True, hasGlobal = False,
     localDir = \<lparr>agentsDir = Some [exFileA, exFileB], skillsDir = NoSkillsDir, commandsDir = None\<rparr>,
     globalDir = \<lparr>agentsDir = None, skillsDir = NoSkillsDir, commandsDir = None\<rparr>,
     now = str ''t'', canWrite = True\<rparr>"

text \<open>Keys made of word characters; a parser state whose keys are all of this kind.\<close>

definition wordKey :: "jsstring \<Rightarrow> bool" where
  "wordKey k \<longleftrightarrow> k \<noteq> [] \<and> list_all isWord k"

definition wordKeys :: "parse_state \<Rightarrow> bool" where
  "wordKeys st \<longleftrightarrow> (\<forall>k \<in> dom (result st). wordKey k)
     \<and> (\<forall>k. currentKey st = Some k \<longrightarrow> wordKey k)"

text \<open>
  The closing delimiter of the front-matter pattern, \<^verbatim>\<open>\n---\s*\n\<close>, matches at the start
  of \<open>s\<close>; it matches at some index of \<open>s\<close>.
\<close>

definition closesAt :: "jsstring \<Rightarrow> bool" where
  "closesAt s \<longleftrightarrow>
     lit (NL # str ''---'') s (\<lambda>s5. starG isSpace s5 (\<lambda>s6.
       cls (\<lambda>c. c = NL) s6 (\<lambda>s7. Some ()))) \<noteq> None"

fun hasClosing :: "jsstring \<Rightarrow> bool" where
  "hasClosing [] = False"
| "hasClosing (c # cs) = (closesAt (c # cs) \<or> hasClosing cs)"

text \<open>
  A line declares the key \<open>k\<close>. States of the line loop: no list is collected without a
  current key; the key \<open>k\<close> is the current key, has no entry and no item yet; the key \<open>k\<close>
  has no entry and is not the current key.
\<close>

definition declares :: "jsstring \<Rightarrow> jsstring \<Rightarrow> bool" where
  "declares k line = (case kvMatch line of None \<Rightarrow> False | Some (key, raw) \<Rightarrow> key = k)"

definition tidy :: "parse_state \<Rightarrow> bool" where
  "tidy st \<longleftrightarrow> (currentKey st = None \<longrightarrow> currentList st = [])
     \<and> (\<forall>k. currentKey st = Some k \<longrightarrow> k \<noteq> [])"

definition pending :: "jsstring \<Rightarrow> parse_state \<Rightarrow> bool" where
  "pending k st \<longleftrightarrow> result st k = None \<and> currentKey st = Some k \<and> currentList st = []"

definition absent :: "jsstring \<Rightarrow> parse_state \<Rightarrow> bool" where
  "absent k st \<longleftrightarrow> tidy st \<and> result st k = None \<and> currentKey st \<noteq> Some k"

text \<open>\<^verbatim>\<open>xs.join(sep)\<close>.\<close>

fun joinWith :: "jsstring \<Rightarrow> jsstring list \<Rightarrow> jsstring" where
  "joinWith sep [] = []"
| "joinWith sep [x] = x"
| "joinWith sep (x # y # ys) = x @ sep @ joinWith sep (y # ys)"

text \<open>
  An example \<^verbatim>\<open>agents\<close> directory with four files whose names give the agents the ids
  \<^verbatim>\<open>agent:a\<close>, \<^verbatim>\<open>agent:a->agent:b\<close>, \<^verbatim>\<open>agent:b->agent:c\<close> and \<^verbatim>\<open>agent:c\<close>; the first declares
  the third as its subagent, the second declares the fourth.
\<close>

definition exColA :: md_file where
  "exColA = \<lparr>fileName = str ''a.md'', stem = str ''a'', relPath = str ''.claude/agents/a.md'',
      content = Some (str ''---\<newline>subagents: b->agent:c\<newline>---\<newline>x'')\<rparr>"

definition exColAB :: md_file where
  "exColAB = \<lparr>fileName = str ''a->agent:b.md'', stem = str ''a->agent:b'',
      relPath = str ''.claude/agents/a->agent:b.md'',
      content = Some (str ''---\<newline>subagents: c\<newline>---\<newline>x'')\<rparr>"

definition exColBC :: md_file where
  "exColBC = \<lparr>fileName = str ''b->agent:c.md'', stem = str ''b->agent:c'',
      relPath = str ''.claude/agents/b->agent:c.md'', content = Some (str ''x'')\<rparr>"

definition exColC :: md_file where
  "exColC = \<lparr>fileName = str ''c.md'', stem = str ''c'', relPath = str ''.claude/agents/c.md'',
      content = Some (str ''x'')\<rparr>"

definition exColAgentA :: agent_node where
  "exColAgentA = agentOf Local exColA (str ''---\<newline>subagents: b->agent:c\<newline>---\<newline>x'')"

definition exColAgentAB :: agent_node where
  "exColAgentAB = agentOf Local exColAB (str ''---\<newline>subagents: c\<newline>---\<newline>x'')"

definition exColAgentBC :: agent_node where
  "exColAgentBC = agentOf Local exColBC (str ''x'')"

definition exColAgentC :: agent_node where
  "exColAgentC = agentOf Local exColC (str ''x'')"

section \<open>Properties\<close>

subsection \<open>The orchestrator's missing-root errors\<close>

lemma buildMap_error: "buildMap lower pre ns m = Inl e \<Longrightarrow> e = TypeError"
  by (induction ns arbitrary: m) (auto split: js_value.splits)

lemma findRelationships_error:
  "findRelationships lower readFile ags sks cmds cp = Inl e \<Longrightarrow> e = TypeError"
  by (auto simp: findRelationships_def Let_def split: sum.splits dest: buildMap_error)

lemma scanSkills_error: "scanSkills d sc = Inl e \<Longrightarrow> e = ReaddirError"
  by (auto simp: scanSkills_def split: skills_dir.splits)

lemma requested_simps:
  "(case b of None \<Rightarrow> True | Some x \<Rightarrow> x) = requested b"
  by (cases b) (auto simp: requested_def)

lemma scanProject_NoLocalFolder:
  "requested (includeLocal opts) \<Longrightarrow> \<not> hasLocal env \<Longrightarrow> \<not> requested (includeGlobal opts) \<Longrightarrow>
   scanProject lower readFile env opts = Inl (NoLocalFolder (project env))"
  by (simp add: scanProject_def requested_simps)

lemma scanProject_NoGlobalFolder:
  "requested (includeGlobal opts) \<Longrightarrow> \<not> hasGlobal env \<Longrightarrow> \<not> requested (includeLocal opts) \<Longrightarrow>
   scanProject lower readFile env opts = Inl (NoGlobalFolder (globalClaudePath env))"
  by (simp add: scanProject_def requested_simps)

lemma scanProject_NoFolder:
  "\<not> hasLocal env \<Longrightarrow> \<not> hasGlobal env \<Longrightarrow>
   requested (includeLocal opts) = requested (includeGlobal opts) \<Longrightarrow>
   scanProject lower readFile env opts = Inl (NoFolder (project env) (globalClaudePath env))"
  by (simp add: scanProject_def requested_simps)

lemma scanProject_proceeds:
  assumes "hasLocal env \<or> hasGlobal env"
    and "\<not> (requested (includeLocal opts) \<and> \<not> requested (includeGlobal opts) \<and> \<not> hasLocal env)"
    and "\<not> (requested (includeGlobal opts) \<and> \<not> requested (includeLocal opts) \<and> \<not> hasGlobal env)"
    and "scanProject lower readFile env opts = Inl e"
  shows "e = ReaddirError \<or> e = TypeError \<or> e = WriteError"
proof -
  from assms(1-3) have
    c: "\<not> (requested (includeLocal opts) \<and> \<not> hasLocal env \<and> \<not> requested (includeGlobal opts))"
       "\<not> (requested (includeGlobal opts) \<and> \<not> hasGlobal env \<and> \<not> requested (includeLocal opts))"
       "\<not> (\<not> hasLocal env \<and> \<not> hasGlobal env)"
    by auto
  show ?thesis
    using assms(4) unfolding scanProject_def requested_simps Let_def if_not_P [OF c(1)] if_not_P [OF c(2)] if_not_P [OF c(3)]
    by (auto split: sum.splits if_splits dest: findRelationships_error scanSkills_error)
qed

lemma scanProject_Inr_conds:
  assumes "scanProject lower readFile env opts = Inr g"
  shows "\<not> (requested (includeLocal opts) \<and> \<not> hasLocal env \<and> \<not> requested (includeGlobal opts))"
    and "\<not> (requested (includeGlobal opts) \<and> \<not> hasGlobal env \<and> \<not> requested (includeLocal opts))"
    and "\<not> (\<not> hasLocal env \<and> \<not> hasGlobal env)"
proof -
  show "\<not> (requested (includeLocal opts) \<and> \<not> hasLocal env \<and> \<not> requested (includeGlobal opts))"
    using assms scanProject_NoLocalFolder [of opts env lower readFile] by auto
  show "\<not> (requested (includeGlobal opts) \<and> \<not> hasGlobal env \<and> \<not> requested (includeLocal opts))"
    using assms scanProject_NoGlobalFolder [of opts env lower readFile] by auto
  show "\<not> (\<not> hasLocal env \<and> \<not> hasGlobal env)"
    using assms scanProject_NoFolder [of env opts lower readFile]
      scanProject_NoLocalFolder [of opts env lower readFile]
      scanProject_NoGlobalFolder [of opts env lower readFile]
    by (cases "requested (includeLocal opts)"; cases "requested (includeGlobal opts)") auto
qed

lemma scanProject_Inr:
  assumes "scanProject lower readFile env opts = Inr g"
  shows "\<exists>la ls lc ga gs gc.
      la = (if requested (includeLocal opts) \<and> hasLocal env
            then scanAgents (agentsDir (localDir env)) Local else [])
    \<and> (if requested (includeLocal opts) \<and> hasLocal env
        then scanSkills (skillsDir (localDir env)) Local else Inr []) = Inr ls
    \<and> lc = (if requested (includeLocal opts) \<and> hasLocal env
            then scanCommands (commandsDir (localDir env)) Local else [])
    \<and> ga = (if requested (includeGlobal opts) \<and> hasGlobal env
            then scanAgents (agentsDir (globalDir env)) Global else [])
    \<and> (if requested (includeGlobal opts) \<and> hasGlobal env
        then scanSkills (skillsDir (globalDir env)) Global else Inr []) = Inr gs
    \<and> gc = (if requested (includeGlobal opts) \<and> hasGlobal env
            then scanCommands (commandsDir (globalDir env)) Global else [])
    \<and> findRelationships lower readFile (mergeNodes la ga) (mergeNodes ls gs) (mergeNodes lc gc)
          (localClaudePath env) = Inr (graph_edges g)
    \<and> nodes g = map AgentNode (mergeNodes la ga) @ map SkillNode (mergeNodes ls gs)
          @ map CommandNode (mergeNodes lc gc)
    \<and> agentCount (graph_meta g) = length la \<and> skillCount (graph_meta g) = length ls
    \<and> commandCount (graph_meta g) = length lc
    \<and> globalAgentCount (graph_meta g) = length ga \<and> globalSkillCount (graph_meta g) = length gs
    \<and> globalCommandCount (graph_meta g) = length gc"
proof -
  note c = scanProject_Inr_conds [OF assms]
  let ?L = "requested (includeLocal opts) \<and> hasLocal env"
  let ?G = "requested (includeGlobal opts) \<and> hasGlobal env"
  obtain ls where ls: "(if ?L then scanSkills (skillsDir (localDir env)) Local else Inr []) = Inr ls"
    using assms unfolding scanProject_def requested_simps Let_def
      if_not_P [OF c(1)] if_not_P [OF c(2)] if_not_P [OF c(3)]
    by (cases "if ?L then scanSkills (skillsDir (localDir env)) Local else Inr []") simp_all
  obtain gs where gs: "(if ?G then scanSkills (skillsDir (globalDir env)) Global else Inr []) = Inr gs"
    using assms unfolding scanProject_def requested_simps Let_def
      if_not_P [OF c(1)] if_not_P [OF c(2)] if_not_P [OF c(3)] ls
    by (cases "if ?G then scanSkills (skillsDir (globalDir env)) Global else Inr []") simp_all
  show ?thesis
    using assms unfolding scanProject_def requested_simps Let_def
      if_not_P [OF c(1)] if_not_P [OF c(2)] if_not_P [OF c(3)] ls gs
    by (cases "canWrite env") (auto split: sum.splits)
qed

lemma scanProject_Inr_counts:
  assumes "scanProject lower readFile env opts = Inr g"
  shows "(\<not> hasLocal env \<longrightarrow> agentCount (graph_meta g) = 0 \<and> skillCount (graph_meta g) = 0
            \<and> commandCount (graph_meta g) = 0)
       \<and> (\<not> hasGlobal env \<longrightarrow> globalAgentCount (graph_meta g) = 0
            \<and> globalSkillCount (graph_meta g) = 0 \<and> globalCommandCount (graph_meta g) = 0)"
  using scanProject_Inr [OF assms] by auto

text \<open>
  C5. \<^verbatim>\<open>scanProject\<close> fails with an error that reports a missing folder exactly when
  neither root exists, or when the requested scope's root is absent and the other scope
  is excluded; the error names the path or paths tried (three conjuncts say which error
  in which case). In every other case the scan goes on past the check of the roots: a
  root that is absent then gives empty lists for its scope (counts 0), and what can
  still reject the call is no missing-root error but one of the exceptions the source
  does not catch (a \<^verbatim>\<open>skills\<close> directory that cannot be listed, a name that is not a
  string, a failed write).
\<close>

theorem scanProject_missing_root:
  "((\<exists>e. scanProject lower readFile env opts = Inl e \<and> missingRoot e) \<longleftrightarrow>
      (\<not> hasLocal env \<and> \<not> hasGlobal env)
      \<or> (requested (includeLocal opts) \<and> \<not> requested (includeGlobal opts) \<and> \<not> hasLocal env)
      \<or> (requested (includeGlobal opts) \<and> \<not> requested (includeLocal opts) \<and> \<not> hasGlobal env))
   \<and> (\<forall>e. scanProject lower readFile env opts = Inl e \<and> missingRoot e \<longrightarrow>
          e = NoLocalFolder (project env) \<or> e = NoGlobalFolder (globalClaudePath env)
          \<or> e = NoFolder (project env) (globalClaudePath env))
   \<and> (\<forall>g. scanProject lower readFile env opts = Inr g \<and> \<not> hasLocal env \<longrightarrow>
          agentCount (graph_meta g) = 0 \<and> skillCount (graph_meta g) = 0
          \<and> commandCount (graph_meta g) = 0)
   \<and> (\<forall>g. scanProject lower readFile env opts = Inr g \<and> \<not> hasGlobal env \<longrightarrow>
          globalAgentCount (graph_meta g) = 0 \<and> globalSkillCount (graph_meta g) = 0
          \<and> globalCommandCount (graph_meta g) = 0)
   \<and> (requested (includeLocal opts) \<and> \<not> requested (includeGlobal opts) \<and> \<not> hasLocal env \<longrightarrow>
          scanProject lower readFile env opts = Inl (NoLocalFolder (project env)))
   \<and> (requested (includeGlobal opts) \<and> \<not> requested (includeLocal opts) \<and> \<not> hasGlobal env \<longrightarrow>
          scanProject lower readFile env opts = Inl (NoGlobalFolder (globalClaudePath env)))
   \<and> (\<not> hasLocal env \<and> \<not> hasGlobal env
          \<and> requested (includeLocal opts) = requested (includeGlobal opts) \<longrightarrow>
          scanProject lower readFile env opts
            = Inl (NoFolder (project env) (globalClaudePath env)))
   \<and> ((hasLocal env \<or> hasGlobal env)
        \<and> \<not> (requested (includeLocal opts) \<and> \<not> requested (includeGlobal opts) \<and> \<not> hasLocal env)
        \<and> \<not> (requested (includeGlobal opts) \<and> \<not> requested (includeLocal opts) \<and> \<not> hasGlobal env)
        \<longrightarrow>
          (\<forall>e. scanProject lower readFile env opts = Inl e \<longrightarrow>
             e = ReaddirError \<or> e = TypeError \<or> e = WriteError))"
proof -
  let ?r = "scanProject lower readFile env opts"
  let ?L = "requested (includeLocal opts)" and ?G = "requested (includeGlobal opts)"
  consider (a) "?L \<and> \<not> hasLocal env \<and> \<not> ?G"
    | (b) "?G \<and> \<not> hasGlobal env \<and> \<not> ?L"
    | (c) "\<not> hasLocal env \<and> \<not> hasGlobal env \<and> ?L = ?G"
    | (d) "(hasLocal env \<or> hasGlobal env) \<and> \<not> (?L \<and> \<not> ?G \<and> \<not> hasLocal env)
            \<and> \<not> (?G \<and> \<not> ?L \<and> \<not> hasGlobal env)"
    by blast
  then have fail: "((\<exists>e. ?r = Inl e \<and> missingRoot e) \<longleftrightarrow>
      (\<not> hasLocal env \<and> \<not> hasGlobal env) \<or> (?L \<and> \<not> ?G \<and> \<not> hasLocal env)
      \<or> (?G \<and> \<not> ?L \<and> \<not> hasGlobal env))
    \<and> (\<forall>e. ?r = Inl e \<and> missingRoot e \<longrightarrow>
          e = NoLocalFolder (project env) \<or> e = NoGlobalFolder (globalClaudePath env)
          \<or> e = NoFolder (project env) (globalClaudePath env))"
  proof cases
    case a
    then have "?r = Inl (NoLocalFolder (project env))"
      by (simp add: scanProject_NoLocalFolder)
    with a show ?thesis by (simp add: missingRoot_def)
  next
    case b
    then have "?r = Inl (NoGlobalFolder (globalClaudePath env))"
      by (simp add: scanProject_NoGlobalFolder)
    with b show ?thesis by (simp add: missingRoot_def)
  next
    case c
    then have "?r = Inl (NoFolder (project env) (globalClaudePath env))"
      by (simp add: scanProject_NoFolder)
    with c show ?thesis by (simp add: missingRoot_def)
  next
    case d
    then have "\<And>e. ?r = Inl e \<Longrightarrow> \<not> missingRoot e"
      using scanProject_proceeds [of env opts lower readFile]
      by (auto simp: missingRoot_def)
    with d show ?thesis by blast
  qed
  have counts: "(\<forall>g. ?r = Inr g \<and> \<not> hasLocal env \<longrightarrow>
          agentCount (graph_meta g) = 0 \<and> skillCount (graph_meta g) = 0
          \<and> commandCount (graph_meta g) = 0)
   \<and> (\<forall>g. ?r = Inr g \<and> \<not> hasGlobal env \<longrightarrow>
          globalAgentCount (graph_meta g) = 0 \<and> globalSkillCount (graph_meta g) = 0
          \<and> globalCommandCount (graph_meta g) = 0)"
    using scanProject_Inr_counts [of lower readFile env opts] by blast
  have which: "(?L \<and> \<not> ?G \<and> \<not> hasLocal env \<longrightarrow> ?r = Inl (NoLocalFolder (project env)))
   \<and> (?G \<and> \<not> ?L \<and> \<not> hasGlobal env \<longrightarrow> ?r = Inl (NoGlobalFolder (globalClaudePath env)))
   \<and> (\<not> hasLocal env \<and> \<not> hasGlobal env \<and> ?L = ?G \<longrightarrow>
          ?r = Inl (NoFolder (project env) (globalClaudePath env)))"
    by (simp add: scanProject_NoLocalFolder scanProject_NoGlobalFolder scanProject_NoFolder)
  have other: "(hasLocal env \<or> hasGlobal env)
        \<and> \<not> (?L \<and> \<not> ?G \<and> \<not> hasLocal env) \<and> \<not> (?G \<and> \<not> ?L \<and> \<not> hasGlobal env) \<longrightarrow>
          (\<forall>e. ?r = Inl e \<longrightarrow> e = ReaddirError \<or> e = TypeError \<or> e = WriteError)"
    using scanProject_proceeds [of env opts lower readFile] by blast
  show ?thesis
    using fail counts which other by (simp only: conj_assoc) blast
qed

theorem scanProject_missing_root_witness:
  "(let dir = \<lparr>agentsDir = None, skillsDir = NoSkillsDir, commandsDir = None\<rparr>;
        env = \<lparr>project = str ''/p'', baseName = str ''p'', localClaudePath = str ''/p/.claude'',
                globalClaudePath = str ''/h/.claude'', hasLocal = False, hasGlobal = True,
                localDir = dir, globalDir = dir, now = str ''t'', canWrite = True\<rparr>
    in (\<exists>g. scanProject asciiLower (\<lambda>p q. None) env \<lparr>includeLocal = None, includeGlobal = None\<rparr> = Inr g
            \<and> agentCount (graph_meta g) = 0 \<and> nodes g = [])
       \<and> (\<exists>e. scanProject asciiLower (\<lambda>p q. None) env
                  \<lparr>includeLocal = Some True, includeGlobal = Some False\<rparr> = Inl e \<and> missingRoot e)
       \<and> scanProject asciiLower (\<lambda>p q. None)
            (env\<lparr>globalDir := dir\<lparr>skillsDir := Unlistable\<rparr>\<rparr>)
            \<lparr>includeLocal = None, includeGlobal = None\<rparr> = Inl ReaddirError
       \<and> \<not> missingRoot ReaddirError)"
proof -
  let ?dir = "\<lparr>agentsDir = None, skillsDir = NoSkillsDir, commandsDir = None\<rparr>"
  let ?env = "\<lparr>project = str ''/p'', baseName = str ''p'', localClaudePath = str ''/p/.claude'',
                globalClaudePath = str ''/h/.claude'', hasLocal = False, hasGlobal = True,
                localDir = ?dir, globalDir = ?dir, now = str ''t'', canWrite = True\<rparr>"
  have 1: "\<exists>g. scanProject asciiLower (\<lambda>p q. None) ?env \<lparr>includeLocal = None, includeGlobal = None\<rparr> = Inr g
            \<and> nodes g = []"
    by (simp add: scanProject_def scanAgents_def scanSkills_def scanCommands_def
        mergeNodes_def findRelationships_def emptyCollector_def)
  have 2: "scanProject asciiLower (\<lambda>p q. None)
            (?env\<lparr>globalDir := ?dir\<lparr>skillsDir := Unlistable\<rparr>\<rparr>)
            \<lparr>includeLocal = None, includeGlobal = None\<rparr> = Inl ReaddirError"
    by (simp add: scanProject_def scanAgents_def scanSkills_def scanCommands_def)
  have 3: "\<not> missingRoot ReaddirError"
    by (simp add: missingRoot_def)
  show ?thesis
    using 1 2 3 scanProject_missing_root [of asciiLower "\<lambda>p q. None" ?env
        "\<lparr>includeLocal = None, includeGlobal = None\<rparr>"]
      scanProject_missing_root [of asciiLower "\<lambda>p q. None" ?env
        "\<lparr>includeLocal = Some True, includeGlobal = Some False\<rparr>"]
    unfolding Let_def by (auto simp: requested_def)
qed

subsection \<open>Truncation of the system prompt\<close>

text \<open>
  C9. The system prompt stored for an agent is its body when the body has at most 500
  code units, and the first 500 code units of the body followed by \<^verbatim>\<open>...\<close> when the
  body is longer.
\<close>

theorem agent_systemPrompt_truncated:
  "(length (extractBodyContent text) \<le> 500 \<longrightarrow>
      systemPrompt (agentOf sc f text) = extractBodyContent text)
   \<and> (length (extractBodyContent text) > 500 \<longrightarrow>
      systemPrompt (agentOf sc f text) = take 500 (extractBodyContent text) @ str ''...'')"
  by (simp add: agentOf_def Let_def)

theorem agent_systemPrompt_truncated_witness:
  "length (extractBodyContent (0x61 # replicate 599 0x61)) > 500
   \<and> systemPrompt (agentOf Local \<lparr>fileName = str ''a.md'', stem = str ''a'',
         relPath = str ''a.md'', content = None\<rparr> (0x61 # replicate 599 0x61))
       = replicate 500 0x61 @ str ''...''
   \<and> length (extractBodyContent (str ''abc'')) \<le> 500
   \<and> systemPrompt (agentOf Local \<lparr>fileName = str ''a.md'', stem = str ''a'',
         relPath = str ''a.md'', content = None\<rparr> (str ''abc'')) = str ''abc''"
proof -
  have b: "extractBodyContent (0x61 # replicate 599 0x61) = replicate 600 0x61"
  proof -
    have "yamlPattern (0x61 # replicate 599 0x61) = None"
      by (simp add: yamlPattern_def str_def)
    moreover have "trim (replicate 600 0x61) = replicate 600 0x61"
      by (simp add: trim_def isSpace_def)
    moreover have "(0x61::jschar) # replicate 599 0x61 = replicate 600 0x61"
      by (simp flip: replicate_Suc)
    ultimately show ?thesis by (simp add: extractBodyContent_def)
  qed
  have c: "extractBodyContent (str ''abc'') = str ''abc''"
    by (simp add: extractBodyContent_def yamlPattern_def str_def trim_def isSpace_def)
  show ?thesis
    using agent_systemPrompt_truncated [of "0x61 # replicate 599 0x61" Local]
      agent_systemPrompt_truncated [of "str ''abc''" Local]
    by (simp add: b c) (simp add: str_def)
qed

subsection \<open>The scope merger\<close>

text \<open>
  C4. \<^verbatim>\<open>mergeNodes\<close> returns the local entries, in their order, followed by the global
  entries, in their order, whose id is not the id of a local entry. So an entry of the
  result with the id of a local entry is a local entry, and the ids of the result are
  distinct when the ids of each input list are.
\<close>

theorem mergeNodes_local_precedence:
  "mergeNodes l g = l @ filter (\<lambda>n. node_id n \<notin> node_id ` set l) g
   \<and> (\<forall>n \<in> set (mergeNodes l g). node_id n \<in> node_id ` set l \<longrightarrow> n \<in> set l)
   \<and> (distinct (map node_id l) \<and> distinct (map node_id g) \<longrightarrow>
        distinct (map node_id (mergeNodes l g)))"
  by (auto simp: mergeNodes_def distinct_map_filter) (metis imageI)

theorem mergeNodes_local_precedence_witness:
  "(let a = \<lparr>node_id = str ''agent:a'', node_type = AgentType, name = Str (str ''a''),
              description = Str [], filePath = str ''a.md'', scope = Local\<rparr>;
        a' = a\<lparr>scope := Global\<rparr>;
        b = a\<lparr>node_id := str ''agent:b'', scope := Global\<rparr>
    in distinct (map node_id [a]) \<and> distinct (map node_id [a', b]) \<and>
       mergeNodes [a] [a', b] = [a, b] \<and> distinct (map node_id (mergeNodes [a] [a', b])))"
  using mergeNodes_local_precedence [of
     "[\<lparr>node_id = str ''agent:a'', node_type = AgentType, name = Str (str ''a''),
              description = Str [], filePath = str ''a.md'', scope = Local\<rparr>]"
     "[\<lparr>node_id = str ''agent:a'', node_type = AgentType, name = Str (str ''a''),
              description = Str [], filePath = str ''a.md'', scope = Global\<rparr>,
       \<lparr>node_id = str ''agent:b'', node_type = AgentType, name = Str (str ''a''),
              description = Str [], filePath = str ''a.md'', scope = Global\<rparr>]"]
  by (simp add: Let_def str_def)

subsection \<open>The edge collector and the relationship engine\<close>

lemma consistent_empty: "consistent emptyCollector"
  by (simp add: consistent_def emptyCollector_def)

lemma consistent_addEdge: "consistent c \<Longrightarrow> consistent (addEdge c s t ty)"
  by (auto simp: consistent_def addEdge_def keyOf_def)

lemma consistent_distinct_pairs:
  assumes "consistent c"
  shows "distinct (map (\<lambda>e. (source e, target e)) (edges c))"
proof -
  have "map keyOf (edges c) = map (\<lambda>p. edgeKey (fst p) (snd p)) (map (\<lambda>e. (source e, target e)) (edges c))"
    by (simp add: keyOf_def comp_def)
  moreover have "distinct (map keyOf (edges c))"
    using assms by (simp add: consistent_def)
  ultimately have "distinct (map (\<lambda>p. edgeKey (fst p) (snd p))
      (map (\<lambda>e. (source e, target e)) (edges c)))"
    by (simp only:)
  then show ?thesis
    unfolding distinct_map by (rule conjunct1)
qed

lemma consistent_offers: "consistent c \<Longrightarrow> consistent (foldl offer c os)"
  by (induction os arbitrary: c) (auto simp: consistent_addEdge)

lemma addEdge_key: "edgeKey s t \<in> addedEdges (addEdge c s t ty)"
  by (simp add: addEdge_def)

lemma addEdge_mono: "k \<in> addedEdges c \<Longrightarrow> k \<in> addedEdges (addEdge c s t ty)"
  by (simp add: addEdge_def)

lemma offers_mono: "k \<in> addedEdges c \<Longrightarrow> k \<in> addedEdges (foldl offer c os)"
  by (induction os arbitrary: c) (auto simp: addEdge_mono)

lemma offered_key:
  "(s, t, ty) \<in> set os \<Longrightarrow> edgeKey s t \<in> addedEdges (foldl offer c os)"
proof (induction os arbitrary: c)
  case Nil
  then show ?case by simp
next
  case (Cons x os)
  show ?case
  proof (cases "x = (s, t, ty)")
    case True
    then show ?thesis by (simp add: offers_mono addEdge_key)
  next
    case False
    with Cons show ?thesis by simp
  qed
qed

lemma addEdge_present: "edgeKey s t \<in> addedEdges c \<Longrightarrow> addEdge c s t ty = c"
  by (simp add: addEdge_def)

lemma addEdge_extend: "\<exists>r. edges (addEdge c s t ty) = edges c @ r"
  by (simp add: addEdge_def)

lemma offer_extend: "\<exists>r. edges (offer c x) = edges c @ r"
  by (cases x) (simp add: addEdge_def)

lemma offers_extend: "\<exists>r. edges (foldl offer c os) = edges c @ r"
proof (induction os arbitrary: c)
  case Nil
  then show ?case by simp
next
  case (Cons x os)
  obtain r where "edges (foldl offer (offer c x) os) = edges (offer c x) @ r"
    using Cons by blast
  moreover obtain r' where "edges (offer c x) = edges c @ r'"
    using offer_extend by blast
  ultimately show ?case by simp
qed

lemma offers_keep_pair:
  "edgeKey s t \<in> addedEdges c \<Longrightarrow>
   filter (samePair s t) (edges (foldl offer c os)) = filter (samePair s t) (edges c)"
proof (induction os arbitrary: c)
  case Nil
  then show ?case by simp
next
  case (Cons x os)
  obtain s' t' ty' where x: "x = (s', t', ty')" by (cases x)
  have k: "edgeKey s t \<in> addedEdges (offer c x)"
    using Cons.prems by (simp add: x addEdge_mono)
  have "filter (samePair s t) (edges (offer c x)) = filter (samePair s t) (edges c)"
    using Cons.prems by (auto simp: x addEdge_def samePair_def)
  with Cons.IH [OF k] show ?case by simp
qed

lemma fresh_no_pair:
  "consistent c \<Longrightarrow> edgeKey s t \<notin> addedEdges c \<Longrightarrow> filter (samePair s t) (edges c) = []"
  by (auto simp: consistent_def samePair_def keyOf_def filter_empty_conv)

lemma within_addEdge: "within S T c \<Longrightarrow> s \<in> S \<Longrightarrow> t \<in> T \<Longrightarrow> within S T (addEdge c s t ty)"
  by (auto simp: within_def addEdge_def)

lemma declaredEdge_invariant:
  assumes step: "\<And>c t. P c \<Longrightarrow> t \<in> T \<Longrightarrow> P (addEdge c aid t ty)"
    and m: "\<And>k i. m k = Some i \<Longrightarrow> i \<in> T"
    and "P c"
  shows "P (foldl (declaredEdge lower m aid ty) c nms)"
  using \<open>P c\<close>
proof (induction nms arbitrary: c)
  case Nil
  then show ?case by simp
next
  case (Cons nm nms)
  have "P (declaredEdge lower m aid ty c nm)"
    using Cons.prems step m by (auto simp: declaredEdge_def split: option.splits)
  then show ?case using Cons.IH by simp
qed

lemma declaredEdges_invariant:
  assumes step: "\<And>c t ty. P c \<Longrightarrow> t \<in> T \<Longrightarrow> P (addEdge c (node_id a) t ty)"
    and am: "\<And>k i. agentMap k = Some i \<Longrightarrow> i \<in> T"
    and sm: "\<And>k i. skillMap k = Some i \<Longrightarrow> i \<in> T"
    and "P c"
  shows "P (declaredEdges lower agentMap skillMap c a)"
proof -
  have 1: "P (foldl (declaredEdge lower agentMap (node_id a) Calls) c (subagents a))"
    by (rule declaredEdge_invariant [where P = P and T = T and m = agentMap])
       (use step am \<open>P c\<close> in blast)+
  have "P (foldl (declaredEdge lower skillMap (node_id a) Uses)
             (foldl (declaredEdge lower agentMap (node_id a) Calls) c (subagents a)) (skills a))"
    by (rule declaredEdge_invariant [where P = P and T = T and m = skillMap])
       (use step sm 1 in blast)+
  then show ?thesis by (simp add: declaredEdges_def Let_def)
qed

lemma mentions_invariant:
  assumes step: "\<And>c t. P c \<Longrightarrow> t \<in> T \<Longrightarrow> P (addEdge c aid t Uses)"
    and "node_id ` set ns \<subseteq> T"
    and "P c"
  shows "P (snd (mentions lower text aid pre ns c))"
  using assms(2,3)
proof (induction ns arbitrary: c)
  case Nil
  then show ?case by simp
next
  case (Cons n ns)
  show ?case
  proof (cases "name n")
    case (Str s)
    have "P (if includesStr text (lower s) \<or> includesStr text (removeFirst pre (node_id n))
             then addEdge c aid (node_id n) Uses else c)"
      using Cons.prems step by auto
    then show ?thesis using Cons Str by simp
  qed (use Cons.prems in simp_all)
qed

lemma contentEdges_invariant:
  assumes step: "\<And>c t. P c \<Longrightarrow> t \<in> T \<Longrightarrow> P (addEdge c (node_id a) t Uses)"
    and "node_id ` set sks \<subseteq> T" and "node_id ` set cmds \<subseteq> T"
    and "P c"
  shows "P (contentEdges lower readFile cp sks cmds c a)"
proof (cases "readFile cp (filePath a)")
  case None
  then show ?thesis using \<open>P c\<close> by (simp add: contentEdges_def)
next
  case (Some raw)
  let ?r = "mentions lower (lower raw) (node_id a) (str ''skill:'') sks c"
  have 1: "P (snd ?r)"
    by (rule mentions_invariant [where P = P and T = T])
       (use assms(2,4) step in blast)+
  have "P (snd (mentions lower (lower raw) (node_id a) (str ''command:'') cmds (snd ?r)))"
    by (rule mentions_invariant [where P = P and T = T])
       (use assms(3) 1 step in blast)+
  with 1 Some show ?thesis by (simp add: contentEdges_def Let_def)
qed

lemma buildMap_values:
  assumes "buildMap lower pre ns m = Inr m'"
    and "\<forall>k i. m k = Some i \<longrightarrow> i \<in> T"
    and "node_id ` set ns \<subseteq> T"
  shows "\<forall>k i. m' k = Some i \<longrightarrow> i \<in> T"
  using assms
proof (induction ns arbitrary: m)
  case Nil
  then show ?case by simp
next
  case (Cons n ns)
  from Cons.prems(1) obtain s where s: "name n = Str s"
    by (cases "name n") auto
  let ?m = "(m(lower s \<mapsto> node_id n))(lower (removeFirst pre (node_id n)) \<mapsto> node_id n)"
  have b: "buildMap lower pre ns ?m = Inr m'"
    using Cons.prems(1) s by simp
  have v: "\<forall>k i. ?m k = Some i \<longrightarrow> i \<in> T"
    using Cons.prems(2,3) by (auto split: if_splits)
  have ids: "node_id ` set ns \<subseteq> T"
    using Cons.prems(3) by auto
  show ?case
    by (rule Cons.IH [OF b v ids])
qed

lemma engine_invariant:
  assumes r: "findRelationships lower readFile ags sks cmds cp = Inr es"
    and step: "\<And>c s t ty. P c \<Longrightarrow> s \<in> node_id ` set ags \<Longrightarrow>
        t \<in> node_id ` set ags \<union> node_id ` set sks \<union> node_id ` set cmds \<Longrightarrow> P (addEdge c s t ty)"
    and init: "P emptyCollector"
  shows "\<exists>c. es = edges c \<and> P c"
proof -
  let ?T = "node_id ` set ags \<union> node_id ` set sks \<union> node_id ` set cmds"
  from r obtain am sm where
    am: "buildMap lower (str ''agent:'') ags Map.empty = Inr am" and
    sm: "buildMap lower (str ''skill:'') sks Map.empty = Inr sm" and
    es: "es = edges (foldl (contentEdges lower readFile cp sks cmds)
                 (foldl (declaredEdges lower am sm) emptyCollector ags) ags)"
    by (auto simp: findRelationships_def Let_def split: sum.splits)
  have amT: "\<And>k i. am k = Some i \<Longrightarrow> i \<in> ?T"
    using buildMap_values [OF am, where T = ?T] by auto
  have smT: "\<And>k i. sm k = Some i \<Longrightarrow> i \<in> ?T"
    using buildMap_values [OF sm, where T = ?T] by auto
  have 1: "P (foldl (declaredEdges lower am sm) c xs)" if "P c" "set xs \<subseteq> set ags" for c xs
    using that
  proof (induction xs arbitrary: c)
    case Nil
    then show ?case by simp
  next
    case (Cons a xs)
    have a: "node_id a \<in> node_id ` set ags"
      using Cons.prems by auto
    have "P (declaredEdges lower am sm c a)"
      by (rule declaredEdges_invariant [where P = P and T = ?T])
         (use Cons.prems(1) amT smT step [OF _ a] in blast)+
    then show ?case using Cons by simp
  qed
  have 2: "P (foldl (contentEdges lower readFile cp sks cmds) c xs)"
    if "P c" "set xs \<subseteq> set ags" for c xs
    using that
  proof (induction xs arbitrary: c)
    case Nil
    then show ?case by simp
  next
    case (Cons a xs)
    have a: "node_id a \<in> node_id ` set ags"
      using Cons.prems by auto
    have "P (contentEdges lower readFile cp sks cmds c a)"
      by (rule contentEdges_invariant [where P = P and T = ?T])
         (use Cons.prems(1) step [OF _ a] in blast)+
    then show ?case using Cons by simp
  qed
  have "P (foldl (declaredEdges lower am sm) emptyCollector ags)"
    using init by (rule 1) simp
  then have "P (foldl (contentEdges lower readFile cp sks cmds)
                 (foldl (declaredEdges lower am sm) emptyCollector ags) ags)"
    by (rule 2) simp
  with es show ?thesis by blast
qed

lemma scanProject_Inr_graph:
  assumes "scanProject lower readFile env opts = Inr g"
  shows "\<exists>ags sks cmds.
      findRelationships lower readFile ags sks cmds (localClaudePath env) = Inr (graph_edges g)
      \<and> nodes g = map AgentNode ags @ map SkillNode sks @ map CommandNode cmds"
  using scanProject_Inr [OF assms] by blast

lemma buildMap_map:
  assumes "\<And>n. name (f n) = name n" and "\<And>n. node_id (f n) = node_id n"
  shows "buildMap lower pre (map f ns) m = buildMap lower pre ns m"
  by (induction ns arbitrary: m) (simp_all add: assms split: js_value.splits)

lemma buildMap_unknown:
  assumes "buildMap lower pre ns m = Inr m'"
    and "m k = None"
    and "\<forall>n \<in> set ns. (\<forall>s. name n = Str s \<longrightarrow> k \<noteq> lower s)
           \<and> k \<noteq> lower (removeFirst pre (node_id n))"
  shows "m' k = None"
  using assms
proof (induction ns arbitrary: m)
  case Nil
  then show ?case by simp
next
  case (Cons n ns)
  from Cons.prems(1) obtain s where s: "name n = Str s"
    by (cases "name n") auto
  let ?m = "(m(lower s \<mapsto> node_id n))(lower (removeFirst pre (node_id n)) \<mapsto> node_id n)"
  have b: "buildMap lower pre ns ?m = Inr m'"
    using Cons.prems(1) s by simp
  have v: "?m k = None"
    using Cons.prems(2,3) s by simp
  have r: "\<forall>n \<in> set ns. (\<forall>s. name n = Str s \<longrightarrow> k \<noteq> lower s)
           \<and> k \<noteq> lower (removeFirst pre (node_id n))"
    using Cons.prems(3) by simp
  show ?case
    by (rule Cons.IH [OF b v r])
qed

lemma buildMap_total:
  "stringNames ns \<Longrightarrow> \<exists>m'. buildMap lower pre ns m = Inr m'"
proof (induction ns arbitrary: m)
  case Nil
  then show ?case by simp
next
  case (Cons n ns)
  from Cons.prems obtain s where s: "name n = Str s" and r: "stringNames ns"
    by (cases "name n") (auto simp: stringNames_def)
  show ?case
    using Cons.IH [OF r] s by simp
qed

lemma unknown_declaredEdge:
  assumes "buildMap lower pre ns Map.empty = Inr m" and "\<not> known lower pre ns nm"
  shows "declaredEdge lower m aid ty c nm = c"
proof -
  have "m (trim (lower nm)) = None"
  proof (rule buildMap_unknown [OF assms(1)])
    show "Map.empty (trim (lower nm)) = None" by simp
    show "\<forall>n\<in>set ns. (\<forall>s. name n = Str s \<longrightarrow> trim (lower nm) \<noteq> lower s)
           \<and> trim (lower nm) \<noteq> lower (removeFirst pre (node_id n))"
      using assms(2) by (auto simp: known_def list_ex_iff matchesNode_def)
  qed
  then show ?thesis by (simp add: declaredEdge_def)
qed

lemma foldl_filter_noop:
  assumes "\<And>x c. \<not> Q x \<Longrightarrow> f c x = c"
  shows "foldl f c (filter Q xs) = foldl f c xs"
  by (induction xs arbitrary: c) (simp_all add: assms)

lemma declaredEdges_dropUnresolved:
  assumes am: "buildMap lower (str ''agent:'') ags Map.empty = Inr am"
    and sm: "buildMap lower (str ''skill:'') sks Map.empty = Inr sm"
  shows "declaredEdges lower am sm c (dropUnresolved lower ags sks a)
       = declaredEdges lower am sm c a"
proof -
  have 1: "foldl (declaredEdge lower am (node_id a) Calls) c
             (filter (known lower (str ''agent:'') ags) (subagents a))
         = foldl (declaredEdge lower am (node_id a) Calls) c (subagents a)" for c
    by (rule foldl_filter_noop) (rule unknown_declaredEdge [OF am])
  have 2: "foldl (declaredEdge lower sm (node_id a) Uses) c
             (filter (known lower (str ''skill:'') sks) (skills a))
         = foldl (declaredEdge lower sm (node_id a) Uses) c (skills a)" for c
    by (rule foldl_filter_noop) (rule unknown_declaredEdge [OF sm])
  show ?thesis
    by (simp add: declaredEdges_def dropUnresolved_def Let_def 1 2)
qed

lemma contentEdges_dropUnresolved:
  "contentEdges lower readFile cp sks cmds c (dropUnresolved lower ags sks' a)
     = contentEdges lower readFile cp sks cmds c a"
  by (simp add: contentEdges_def dropUnresolved_def Let_def split: option.splits)

lemma findRelationships_dropUnresolved:
  "findRelationships lower readFile (map (dropUnresolved lower ags sks) ags) sks cmds cp
     = findRelationships lower readFile ags sks cmds cp"
proof -
  let ?f = "dropUnresolved lower ags sks"
  have bm: "buildMap lower (str ''agent:'') (map ?f ags) Map.empty
          = buildMap lower (str ''agent:'') ags Map.empty"
    by (rule buildMap_map) (simp_all add: dropUnresolved_def)
  show ?thesis
  proof (cases "buildMap lower (str ''agent:'') ags Map.empty")
    case (Inl e)
    then show ?thesis by (simp add: findRelationships_def bm)
  next
    case am: (Inr am)
    show ?thesis
    proof (cases "buildMap lower (str ''skill:'') sks Map.empty")
      case (Inl e)
      then show ?thesis by (simp add: findRelationships_def bm am)
    next
      case sm: (Inr sm)
      have 1: "foldl (declaredEdges lower am sm) c (map ?f xs)
             = foldl (declaredEdges lower am sm) c xs" for c xs
        by (induction xs arbitrary: c)
           (simp_all add: declaredEdges_dropUnresolved [OF am sm])
      have 2: "foldl (contentEdges lower readFile cp sks cmds) c (map ?f xs)
             = foldl (contentEdges lower readFile cp sks cmds) c xs" for c xs
        by (induction xs arbitrary: c) (simp_all add: contentEdges_dropUnresolved)
      show ?thesis
        by (simp add: findRelationships_def bm am sm 1 2 Let_def split: sum.splits)
    qed
  qed
qed

lemma findRelationships_total:
  assumes "stringNames ags" "stringNames sks" "stringNames cmds"
  shows "\<exists>es. findRelationships lower readFile ags sks cmds cp = Inr es"
proof -
  obtain am where "buildMap lower (str ''agent:'') ags Map.empty = Inr am"
    using buildMap_total [OF assms(1)] by blast
  moreover obtain sm where "buildMap lower (str ''skill:'') sks Map.empty = Inr sm"
    using buildMap_total [OF assms(2)] by blast
  moreover obtain cm where "buildMap lower (str ''command:'') cmds Map.empty = Inr cm"
    using buildMap_total [OF assms(3)] by blast
  ultimately show ?thesis
    by (simp add: findRelationships_def Let_def)
qed

lemma findRelationships_within:
  assumes "findRelationships lower readFile ags sks cmds cp = Inr es"
  shows "\<forall>e \<in> set es. source e \<in> node_id ` set ags
           \<and> target e \<in> node_id ` set ags \<union> node_id ` set sks \<union> node_id ` set cmds"
proof -
  let ?S = "node_id ` set ags"
  let ?T = "node_id ` set ags \<union> node_id ` set sks \<union> node_id ` set cmds"
  have "\<exists>c. es = edges c \<and> within ?S ?T c"
  proof (rule engine_invariant [OF assms, where P = "within ?S ?T"])
    show "within ?S ?T emptyCollector"
      by (simp add: within_def emptyCollector_def)
    show "within ?S ?T (addEdge c s t ty)"
      if "within ?S ?T c" "s \<in> ?S" "t \<in> ?T" for c s t ty
      using that by (rule within_addEdge)
  qed
  then show ?thesis by (auto simp: within_def)
qed

lemma findRelationships_consistent:
  assumes "findRelationships lower readFile ags sks cmds cp = Inr es"
  shows "distinct (map (\<lambda>e. (source e, target e)) es)"
proof -
  have "\<exists>c. es = edges c \<and> consistent c"
    by (rule engine_invariant [OF assms, where P = consistent])
       (simp_all add: consistent_addEdge consistent_empty)
  then show ?thesis using consistent_distinct_pairs by blast
qed

text \<open>
  What the collector does for every sequence of offers: the edges of the output have
  distinct pairs (source, target); offering a pair that was offered before, with any
  type, changes nothing; a pair whose key is not in the set when it is offered is
  inserted and stays the only edge of its pair, with the type of that offer; and edges
  already collected stay in place.
\<close>

lemma collector_dedup:
  "distinct (map (\<lambda>e. (source e, target e)) (edges (collect os)))
   \<and> ((s, t, ty0) \<in> set os \<longrightarrow> addEdge (collect os) s t ty = collect os)
   \<and> (edgeKey s t \<notin> addedEdges (collect os) \<longrightarrow>
        filter (samePair s t) (edges (collect (os @ (s, t, ty) # os')))
          = [\<lparr>source = s, target = t, edge_type = ty\<rparr>])
   \<and> take (length (edges (collect os))) (edges (collect (os @ os'))) = edges (collect os)
   \<and> (findRelationships lower readFile ags sks cmds cp = Inr es \<longrightarrow>
        distinct (map (\<lambda>e. (source e, target e)) es))"
proof -
  have c: "consistent (collect os)"
    by (simp add: collect_def consistent_offers consistent_empty)
  have 1: "distinct (map (\<lambda>e. (source e, target e)) (edges (collect os)))"
    using c by (rule consistent_distinct_pairs)
  have 2: "(s, t, ty0) \<in> set os \<longrightarrow> addEdge (collect os) s t ty = collect os"
    by (simp add: collect_def offered_key addEdge_present)
  have 3: "filter (samePair s t) (edges (collect (os @ (s, t, ty) # os')))
          = [\<lparr>source = s, target = t, edge_type = ty\<rparr>]"
    if fresh: "edgeKey s t \<notin> addedEdges (collect os)"
  proof -
    let ?c1 = "addEdge (collect os) s t ty"
    have "collect (os @ (s, t, ty) # os') = foldl offer ?c1 os'"
      by (simp add: collect_def)
    moreover have "filter (samePair s t) (edges (foldl offer ?c1 os')) = filter (samePair s t) (edges ?c1)"
      by (rule offers_keep_pair) (rule addEdge_key)
    moreover have "filter (samePair s t) (edges ?c1) = [\<lparr>source = s, target = t, edge_type = ty\<rparr>]"
      using fresh fresh_no_pair [OF c fresh] by (simp add: addEdge_def samePair_def)
    ultimately show ?thesis by simp
  qed
  have 4: "take (length (edges (collect os))) (edges (collect (os @ os'))) = edges (collect os)"
    using offers_extend [of "collect os" os'] by (auto simp: collect_def)
  have 5: "findRelationships lower readFile ags sks cmds cp = Inr es \<longrightarrow>
        distinct (map (\<lambda>e. (source e, target e)) es)"
    using findRelationships_consistent by blast
  from 1 2 3 4 5 show ?thesis by blast
qed

lemma exCol_parsed:
  "parseYamlFrontmatter (str ''---\<newline>subagents: b->agent:c\<newline>---\<newline>x'')
     = [str ''subagents'' \<mapsto> Str (str ''b->agent:c'')]"
  "parseYamlFrontmatter (str ''---\<newline>subagents: c\<newline>---\<newline>x'')
     = [str ''subagents'' \<mapsto> Str (str ''c'')]"
  "parseYamlFrontmatter (str ''x'') = Map.empty"
  by (simp_all add: parseYamlFrontmatter_def yamlPattern_def str_def NL_def isSpace_def isAny_def
        parseBlock_def parseLine_def initState_def kvMatch_def listMatch_def plusG_def eos_def
        isWord_def isDot_def COLON_def HYPHEN_def trim_def keySet_def flush_def assign_def
        unquote_def endsWith_def DQUOTE_def SQUOTE_def)

lemma exColAgentA_fields:
  "node_id exColAgentA = str ''agent:a''" "name exColAgentA = Str (str ''a'')"
  "subagents exColAgentA = [str ''b->agent:c'']" "skills exColAgentA = []"
  unfolding exColAgentA_def agentOf_def Let_def exCol_parsed
  by (simp_all add: exColA_def getProp_def orElse_def truthy_def parseListField_def str_def
        COMMA_def trim_def isSpace_def)

lemma exColAgentAB_fields:
  "node_id exColAgentAB = str ''agent:a->agent:b''" "name exColAgentAB = Str (str ''a->agent:b'')"
  "subagents exColAgentAB = [str ''c'']" "skills exColAgentAB = []"
  unfolding exColAgentAB_def agentOf_def Let_def exCol_parsed
  by (simp_all add: exColAB_def getProp_def orElse_def truthy_def parseListField_def str_def
        COMMA_def trim_def isSpace_def)

lemma exColAgentBC_fields:
  "node_id exColAgentBC = str ''agent:b->agent:c''" "name exColAgentBC = Str (str ''b->agent:c'')"
  "subagents exColAgentBC = []" "skills exColAgentBC = []"
  unfolding exColAgentBC_def agentOf_def Let_def exCol_parsed
  by (simp_all add: exColBC_def getProp_def orElse_def truthy_def parseListField_def str_def)

lemma exColAgentC_fields:
  "node_id exColAgentC = str ''agent:c''" "name exColAgentC = Str (str ''c'')"
  "subagents exColAgentC = []" "skills exColAgentC = []"
  unfolding exColAgentC_def agentOf_def Let_def exCol_parsed
  by (simp_all add: exColC_def getProp_def orElse_def truthy_def parseListField_def str_def)

lemma exCol_scanAgents:
  "scanAgents (Some [exColA, exColAB, exColBC, exColC]) Local
     = [exColAgentA, exColAgentAB, exColAgentBC, exColAgentC]"
  by (simp add: scanAgents_def exColAgentA_def exColAgentAB_def exColAgentBC_def exColAgentC_def)
     (simp add: exColA_def exColAB_def exColBC_def exColC_def)

text \<open>
  C3. The claim is that the collector keeps one edge per pair (source, target), the first
  one offered, so that an agent with a declared subagent B has exactly one edge to B.
  The collector does not key its set by the pair but by the string
  \<^verbatim>\<open>source->target\<close>, and two different pairs can have the same string. In the example
  directory the agent \<^verbatim>\<open>agent:a->agent:b\<close> declares the subagent \<^verbatim>\<open>c\<close>, which is the known
  agent \<^verbatim>\<open>agent:c\<close> and is mentioned in its file; the pair was never offered before, but
  its key is the key of the edge from \<^verbatim>\<open>agent:a\<close> to \<^verbatim>\<open>agent:b->agent:c\<close>, so it is dropped:
  the engine returns one edge, and none to \<^verbatim>\<open>agent:c\<close>.
\<close>

theorem key_collision_drops_edge:
  "scanAgents (Some [exColA, exColAB, exColBC, exColC]) Local
     = [exColAgentA, exColAgentAB, exColAgentBC, exColAgentC]
   \<and> node_id exColAgentAB = str ''agent:a->agent:b''
   \<and> subagents exColAgentAB = [str ''c'']
   \<and> node_id exColAgentC = str ''agent:c''
   \<and> known asciiLower (str ''agent:'')
         [exColAgentA, exColAgentAB, exColAgentBC, exColAgentC] (str ''c'')
   \<and> edgeKey (str ''agent:a'') (str ''agent:b->agent:c'')
       = edgeKey (str ''agent:a->agent:b'') (str ''agent:c'')
   \<and> edges (collect [(str ''agent:a'', str ''agent:b->agent:c'', Calls),
                      (str ''agent:a->agent:b'', str ''agent:c'', Calls)])
       = [\<lparr>source = str ''agent:a'', target = str ''agent:b->agent:c'', edge_type = Calls\<rparr>]
   \<and> findRelationships asciiLower (\<lambda>cp fp. Some (str ''c''))
         [exColAgentA, exColAgentAB, exColAgentBC, exColAgentC] [] [] (str ''/p/.claude'')
       = Inr [\<lparr>source = str ''agent:a'', target = str ''agent:b->agent:c'', edge_type = Calls\<rparr>]"
proof -
  have k: "known asciiLower (str ''agent:'')
         [exColAgentA, exColAgentAB, exColAgentBC, exColAgentC] (str ''c'')"
    by (simp add: known_def matchesNode_def exColAgentA_fields exColAgentAB_fields
          exColAgentBC_fields exColAgentC_fields asciiLower_def str_def trim_def isSpace_def)
  have e: "edgeKey (str ''agent:a'') (str ''agent:b->agent:c'')
       = edgeKey (str ''agent:a->agent:b'') (str ''agent:c'')"
    by (simp add: edgeKey_def str_def)
  have c: "edges (collect [(str ''agent:a'', str ''agent:b->agent:c'', Calls),
                      (str ''agent:a->agent:b'', str ''agent:c'', Calls)])
       = [\<lparr>source = str ''agent:a'', target = str ''agent:b->agent:c'', edge_type = Calls\<rparr>]"
    by (simp add: collect_def emptyCollector_def addEdge_def e)
  have f: "findRelationships asciiLower (\<lambda>cp fp. Some (str ''c''))
         [exColAgentA, exColAgentAB, exColAgentBC, exColAgentC] [] [] (str ''/p/.claude'')
       = Inr [\<lparr>source = str ''agent:a'', target = str ''agent:b->agent:c'', edge_type = Calls\<rparr>]"
    by (simp add: findRelationships_def declaredEdges_def declaredEdge_def contentEdges_def
          exColAgentA_fields exColAgentAB_fields exColAgentBC_fields exColAgentC_fields
          addEdge_def edgeKey_def emptyCollector_def asciiLower_def str_def trim_def isSpace_def
          Let_def)
  show ?thesis
    by (intro conjI exCol_scanAgents exColAgentAB_fields(1) exColAgentAB_fields(3)
          exColAgentC_fields(1) k e c f)
qed

text \<open>
  C2. In every scan result each edge leads from the id of a node of the result to the id
  of a node of the result. A name of a \<^verbatim>\<open>subagents\<close> or \<^verbatim>\<open>skills\<close> list that matches no
  node leaves the collector as it is; removing all such names from the agents changes
  neither the edges nor the outcome of the engine, and the engine returns its edges
  whenever the names of the nodes are strings.
\<close>

theorem edges_reference_nodes:
  "(\<forall>g. scanProject lower readFile env opts = Inr g \<longrightarrow>
      (\<forall>e \<in> set (graph_edges g). source e \<in> any_id ` set (nodes g)
                                  \<and> target e \<in> any_id ` set (nodes g)))
   \<and> (buildMap lower (str ''agent:'') ags Map.empty = Inr agentMap
        \<and> \<not> known lower (str ''agent:'') ags nm \<longrightarrow>
        declaredEdge lower agentMap aid Calls c nm = c)
   \<and> (buildMap lower (str ''skill:'') sks Map.empty = Inr skillMap
        \<and> \<not> known lower (str ''skill:'') sks nm \<longrightarrow>
        declaredEdge lower skillMap aid Uses c nm = c)
   \<and> findRelationships lower readFile (map (dropUnresolved lower ags sks) ags) sks cmds cp
        = findRelationships lower readFile ags sks cmds cp
   \<and> (stringNames ags \<and> stringNames sks \<and> stringNames cmds \<longrightarrow>
        (\<exists>es. findRelationships lower readFile ags sks cmds cp = Inr es))"
proof -
  have 1: "source e \<in> any_id ` set (nodes g) \<and> target e \<in> any_id ` set (nodes g)"
    if g: "scanProject lower readFile env opts = Inr g" and e: "e \<in> set (graph_edges g)" for g e
  proof -
    from scanProject_Inr_graph [OF g] obtain as ss cs where
      f: "findRelationships lower readFile as ss cs (localClaudePath env) = Inr (graph_edges g)"
      and n: "nodes g = map AgentNode as @ map SkillNode ss @ map CommandNode cs"
      by blast
    have ids: "any_id ` set (nodes g) = node_id ` set as \<union> node_id ` set ss \<union> node_id ` set cs"
      by (auto simp: n image_Un image_image)
    from findRelationships_within [OF f] e show ?thesis
      unfolding ids by blast
  qed
  then have a: "\<forall>g. scanProject lower readFile env opts = Inr g \<longrightarrow>
      (\<forall>e \<in> set (graph_edges g). source e \<in> any_id ` set (nodes g)
                                  \<and> target e \<in> any_id ` set (nodes g))"
    by blast
  have b: "buildMap lower (str ''agent:'') ags Map.empty = Inr agentMap
        \<and> \<not> known lower (str ''agent:'') ags nm \<longrightarrow>
        declaredEdge lower agentMap aid Calls c nm = c"
    using unknown_declaredEdge [of lower "str ''agent:''" ags agentMap nm] by blast
  have c: "buildMap lower (str ''skill:'') sks Map.empty = Inr skillMap
        \<and> \<not> known lower (str ''skill:'') sks nm \<longrightarrow>
        declaredEdge lower skillMap aid Uses c nm = c"
    using unknown_declaredEdge [of lower "str ''skill:''" sks skillMap nm] by blast
  have d: "stringNames ags \<and> stringNames sks \<and> stringNames cmds \<longrightarrow>
        (\<exists>es. findRelationships lower readFile ags sks cmds cp = Inr es)"
    using findRelationships_total [of ags sks cmds lower readFile cp] by blast
  show ?thesis
    by (intro conjI a b c d findRelationships_dropUnresolved)
qed

subsection \<open>The example project\<close>

lemma exFileA_parsed: "parseYamlFrontmatter (str ''---\<newline>name: A\<newline>subagents: b, ghost\<newline>---\<newline>x'')
   = [str ''name'' \<mapsto> Str (str ''A''), str ''subagents'' \<mapsto> Str (str ''b, ghost'')]"
  by (simp add: parseYamlFrontmatter_def yamlPattern_def str_def NL_def isSpace_def isAny_def parseBlock_def parseLine_def initState_def kvMatch_def listMatch_def plusG_def eos_def isWord_def isDot_def COLON_def HYPHEN_def trim_def keySet_def flush_def assign_def unquote_def endsWith_def DQUOTE_def SQUOTE_def)

lemma exFileB_parsed: "parseYamlFrontmatter (str ''helper'') = Map.empty"
  by (simp add: parseYamlFrontmatter_def yamlPattern_def str_def)

lemma exAgentA_fields:
  "node_id exAgentA = str ''agent:a''" "name exAgentA = Str (str ''A'')"
  "subagents exAgentA = [str ''b'', str ''ghost'']" "skills exAgentA = []"
  "filePath exAgentA = str ''.claude/agents/a.md''"
  unfolding exAgentA_def agentOf_def Let_def exFileA_parsed
  by (simp_all add: exFileA_def getProp_def orElse_def truthy_def parseListField_def str_def
        COMMA_def trim_def isSpace_def)

lemma exAgentB_fields:
  "node_id exAgentB = str ''agent:b''" "name exAgentB = Str (str ''b'')"
  "subagents exAgentB = []" "skills exAgentB = []"
  "filePath exAgentB = str ''.claude/agents/b.md''"
  unfolding exAgentB_def agentOf_def Let_def exFileB_parsed
  by (simp_all add: exFileB_def getProp_def orElse_def truthy_def parseListField_def str_def)

lemma ex_scanAgents: "scanAgents (Some [exFileA, exFileB]) Local = [exAgentA, exAgentB]"
  by (simp add: scanAgents_def exAgentA_def exAgentB_def) (simp add: exFileA_def exFileB_def)

lemma ex_edges:
  "findRelationships asciiLower (\<lambda>cp fp. None) [exAgentA, exAgentB] [] [] (str ''/p/.claude'')
     = Inr [\<lparr>source = str ''agent:a'', target = str ''agent:b'', edge_type = Calls\<rparr>]"
  by (simp add: findRelationships_def declaredEdges_def declaredEdge_def contentEdges_def
        exAgentA_fields exAgentB_fields
        addEdge_def edgeKey_def emptyCollector_def asciiLower_def str_def trim_def isSpace_def
        Let_def)

lemma ex_scan:
  "\<exists>m. scanProject asciiLower (\<lambda>cp fp. None) exEnv \<lparr>includeLocal = None, includeGlobal = None\<rparr>
    = Inr \<lparr>nodes = [AgentNode exAgentA, AgentNode exAgentB],
           graph_edges = [\<lparr>source = str ''agent:a'', target = str ''agent:b'', edge_type = Calls\<rparr>],
           graph_meta = m\<rparr>"
proof -
  have l: "localClaudePath exEnv = str ''/p/.claude''" "hasLocal exEnv" "\<not> hasGlobal exEnv"
    "agentsDir (localDir exEnv) = Some [exFileA, exFileB]"
    "skillsDir (localDir exEnv) = NoSkillsDir"
    "commandsDir (localDir exEnv) = None" "canWrite exEnv"
    by (simp_all add: exEnv_def)
  have m: "mergeNodes [exAgentA, exAgentB] [] = [exAgentA, exAgentB]"
    "mergeNodes ([] :: skill_node list) [] = []" "mergeNodes ([] :: command_node list) [] = []"
    by (simp_all add: mergeNodes_def)
  show ?thesis
    unfolding scanProject_def Let_def
    by (simp add: l m ex_scanAgents scanSkills_def scanCommands_def ex_edges)
qed

theorem edges_reference_nodes_witness:
  "(\<exists>g. scanProject asciiLower (\<lambda>cp fp. None) exEnv \<lparr>includeLocal = None, includeGlobal = None\<rparr>
          = Inr g
        \<and> map any_id (nodes g) = [str ''agent:a'', str ''agent:b'']
        \<and> graph_edges g
            = [\<lparr>source = str ''agent:a'', target = str ''agent:b'', edge_type = Calls\<rparr>]
        \<and> (\<forall>e \<in> set (graph_edges g). source e \<in> any_id ` set (nodes g)
                                    \<and> target e \<in> any_id ` set (nodes g)))
   \<and> \<not> known asciiLower (str ''agent:'') [exAgentA, exAgentB] (str ''ghost'')
   \<and> stringNames [exAgentA, exAgentB]
   \<and> findRelationships asciiLower (\<lambda>cp fp. None)
        (map (dropUnresolved asciiLower [exAgentA, exAgentB] []) [exAgentA, exAgentB]) [] []
        (str ''/p/.claude'')
      = Inr [\<lparr>source = str ''agent:a'', target = str ''agent:b'', edge_type = Calls\<rparr>]"
proof -
  from ex_scan obtain m where
    g: "scanProject asciiLower (\<lambda>cp fp. None) exEnv \<lparr>includeLocal = None, includeGlobal = None\<rparr>
        = Inr \<lparr>nodes = [AgentNode exAgentA, AgentNode exAgentB],
           graph_edges = [\<lparr>source = str ''agent:a'', target = str ''agent:b'', edge_type = Calls\<rparr>],
           graph_meta = m\<rparr>"
    by blast
  note t = edges_reference_nodes [where lower = asciiLower and readFile = "\<lambda>cp fp. None"
      and env = exEnv and opts = "\<lparr>includeLocal = None, includeGlobal = None\<rparr>"
      and ags = "[exAgentA, exAgentB]" and sks = "[]" and cmds = "[]"
      and cp = "str ''/p/.claude''" and nm = "str ''ghost''"]
  have k: "\<not> known asciiLower (str ''agent:'') [exAgentA, exAgentB] (str ''ghost'')"
    by (simp add: known_def matchesNode_def exAgentA_fields exAgentB_fields asciiLower_def
          str_def trim_def isSpace_def)
  have n: "stringNames [exAgentA, exAgentB]"
    by (simp add: stringNames_def exAgentA_fields exAgentB_fields)
  have d: "findRelationships asciiLower (\<lambda>cp fp. None)
        (map (dropUnresolved asciiLower [exAgentA, exAgentB] []) [exAgentA, exAgentB]) [] []
        (str ''/p/.claude'')
      = Inr [\<lparr>source = str ''agent:a'', target = str ''agent:b'', edge_type = Calls\<rparr>]"
    using t ex_edges by simp
  have e: "\<forall>e \<in> set [\<lparr>source = str ''agent:a'', target = str ''agent:b'', edge_type = Calls\<rparr>].
      source e \<in> any_id ` set [AgentNode exAgentA, AgentNode exAgentB]
      \<and> target e \<in> any_id ` set [AgentNode exAgentA, AgentNode exAgentB]"
    using t g by simp
  show ?thesis
    using g k n d e by (simp add: exAgentA_fields exAgentB_fields)
qed

subsection \<open>What the matchers accept\<close>

lemma lit_Some: "lit p s k = Some r \<Longrightarrow> \<exists>rest. s = p @ rest \<and> k rest = Some r"
proof (induction p arbitrary: s)
  case Nil
  then show ?case by simp
next
  case (Cons a p)
  then show ?case by (cases s) (auto split: if_splits)
qed

lemma lit_append: "lit p (p @ rest) k = k rest"
  by (induction p) simp_all

lemma cls_Some: "cls P s k = Some r \<Longrightarrow> \<exists>c rest. s = c # rest \<and> P c \<and> k rest = Some r"
  by (cases s) (auto split: if_splits)

lemma starG_Some:
  "starG P s k = Some r \<Longrightarrow> \<exists>ws rest. s = ws @ rest \<and> (\<forall>c \<in> set ws. P c) \<and> k rest = Some r"
proof (induction s)
  case Nil
  then show ?case by simp
next
  case (Cons a s)
  show ?case
  proof (cases "P a \<and> starG P s k = Some r")
    case True
    with Cons.IH obtain ws rest where "s = ws @ rest" "\<forall>c \<in> set ws. P c" "k rest = Some r"
      by blast
    with True have "a # s = (a # ws) @ rest \<and> (\<forall>c \<in> set (a # ws). P c) \<and> k rest = Some r"
      by simp
    then show ?thesis by blast
  next
    case False
    with Cons.prems have "k (a # s) = Some r"
      by (auto split: if_splits option.splits)
    then have "a # s = [] @ (a # s) \<and> (\<forall>c \<in> set []. P c) \<and> k (a # s) = Some r"
      by simp
    then show ?thesis by blast
  qed
qed

lemma starG_found:
  "(\<forall>c \<in> set ws. P c) \<Longrightarrow> k rest \<noteq> None \<Longrightarrow> starG P (ws @ rest) k \<noteq> None"
proof (induction ws)
  case Nil
  then show ?case by (cases rest) (auto split: option.splits)
next
  case (Cons a ws)
  then show ?case by (auto split: option.splits)
qed

lemma starGcap_Some:
  "starGcap P acc s k = Some r \<Longrightarrow>
   \<exists>g rest. s = g @ rest \<and> (\<forall>c \<in> set g. P c) \<and> k (acc @ g) rest = Some r"
proof (induction s arbitrary: acc)
  case Nil
  then show ?case by simp
next
  case (Cons a s)
  show ?case
  proof (cases "P a \<and> starGcap P (acc @ [a]) s k = Some r")
    case True
    with Cons.IH [of "acc @ [a]"] obtain g rest where
      "s = g @ rest" "\<forall>c \<in> set g. P c" "k ((acc @ [a]) @ g) rest = Some r"
      by blast
    with True have "a # s = (a # g) @ rest \<and> (\<forall>c \<in> set (a # g). P c)
        \<and> k (acc @ (a # g)) rest = Some r"
      by simp
    then show ?thesis by blast
  next
    case False
    with Cons.prems have "k acc (a # s) = Some r"
      by (auto split: if_splits option.splits)
    then have "a # s = [] @ (a # s) \<and> (\<forall>c \<in> set []. P c) \<and> k (acc @ []) (a # s) = Some r"
      by simp
    then show ?thesis by blast
  qed
qed

lemma plusGcap_Some:
  assumes "plusGcap P s k = Some r"
  shows "\<exists>g rest. s = g @ rest \<and> g \<noteq> [] \<and> (\<forall>c \<in> set g. P c) \<and> k g rest = Some r"
proof (cases s)
  case Nil
  with assms show ?thesis by simp
next
  case (Cons a s')
  with assms have a: "P a" and "starGcap P [a] s' k = Some r"
    by (auto split: if_splits)
  from starGcap_Some [OF this(2)] obtain g rest where
    "s' = g @ rest" "\<forall>c \<in> set g. P c" "k ([a] @ g) rest = Some r"
    by blast
  with a Cons have "s = (a # g) @ rest \<and> a # g \<noteq> [] \<and> (\<forall>c \<in> set (a # g). P c)
      \<and> k (a # g) rest = Some r"
    by simp
  then show ?thesis by blast
qed

lemma kvMatch_key:
  assumes "kvMatch line = Some (key, v)"
  shows "key \<noteq> [] \<and> (\<forall>c \<in> set key. isWord c)"
proof -
  from assms obtain g rest where g: "g \<noteq> []" "\<forall>c \<in> set g. isWord c"
    and k: "cls (\<lambda>c. c = COLON) rest (\<lambda>s2. starG isSpace s2 (\<lambda>s3.
              starGcap isDot [] s3 (\<lambda>v s4. eos s4 (g, v)))) = Some (key, v)"
    unfolding kvMatch_def by (blast dest: plusGcap_Some)
  from cls_Some [OF k] obtain s2 where
    "starG isSpace s2 (\<lambda>s3. starGcap isDot [] s3 (\<lambda>v s4. eos s4 (g, v))) = Some (key, v)"
    by blast
  from starG_Some [OF this] obtain s3 where
    "starGcap isDot [] s3 (\<lambda>v s4. eos s4 (g, v)) = Some (key, v)"
    by blast
  from starGcap_Some [OF this] obtain v' s4 where "eos s4 (g, [] @ v') = Some (key, v)"
    by blast
  then have "key = g"
    by (auto simp: eos_def split: if_splits)
  with g show ?thesis by simp
qed

subsection \<open>Keys of the parsed front matter\<close>

lemma assign_dom: "dom (assign m k v) \<subseteq> insert k (dom m)"
  by (auto simp: assign_def)

lemma wordKeys_flush: "wordKeys st \<Longrightarrow> wordKeys (flush st)"
  using assign_dom by (auto simp: wordKeys_def flush_def keySet_def split: option.splits) blast

lemma wordKeys_parseLine:
  assumes "wordKeys st"
  shows "wordKeys (parseLine st line)"
proof (cases "kvMatch line")
  case None
  with assms show ?thesis
    by (auto simp: parseLine_def wordKeys_def split: option.splits)
next
  case (Some kv)
  obtain key raw where kv: "kv = (key, raw)" by (cases kv)
  have w: "wordKey key"
    using kvMatch_key [of line key raw] Some kv by (simp add: wordKey_def list_all_iff)
  have f: "wordKeys (flush st)" using assms by (rule wordKeys_flush)
  have 1: "wordKeys ((flush st)\<lparr>result := assign (result (flush st)) key v, currentKey := None\<rparr>)" for v
    using f w assign_dom [of "result (flush st)" key v] by (auto simp: wordKeys_def)
  have 2: "wordKeys ((flush st)\<lparr>currentKey := Some key\<rparr>)"
    using f w by (auto simp: wordKeys_def)
  have 3: "wordKeys (st\<lparr>currentList := xs\<rparr>)" for xs
    using assms by (auto simp: wordKeys_def)
  show ?thesis
    using assms 1 2 3 Some kv by (simp add: parseLine_def Let_def split: option.splits)
qed

lemma wordKeys_lines: "wordKeys st \<Longrightarrow> wordKeys (foldl parseLine st ls)"
  by (induction ls arbitrary: st) (simp_all add: wordKeys_parseLine)

lemma parseBlock_wordKey:
  assumes "parseBlock b k = Some v"
  shows "wordKey k"
proof -
  let ?st = "foldl parseLine initState (splitOn NL b)"
  have w: "wordKeys ?st"
    by (rule wordKeys_lines) (simp add: wordKeys_def initState_def)
  show ?thesis
  proof (cases "keySet (currentKey ?st) \<and> currentList ?st \<noteq> []")
    case True
    then obtain ck where ck: "currentKey ?st = Some ck"
      by (auto simp: keySet_def split: option.splits)
    with True assms have "k \<in> dom (assign (result ?st) ck (Arr (currentList ?st)))"
      by (auto simp: parseBlock_def Let_def)
    with assign_dom have "k = ck \<or> k \<in> dom (result ?st)" by blast
    with w ck show ?thesis by (auto simp: wordKeys_def)
  next
    case False
    with assms have "k \<in> dom (result ?st)"
      by (auto simp: parseBlock_def Let_def)
    with w show ?thesis by (auto simp: wordKeys_def)
  qed
qed

lemma parseYamlFrontmatter_wordKey:
  "parseYamlFrontmatter text k = Some v \<Longrightarrow> wordKey k"
  by (auto simp: parseYamlFrontmatter_def split: option.splits dest: parseBlock_wordKey)

text \<open>
  C1. The claim is that a front-matter line \<^verbatim>\<open>argument-hint: value\<close> is read back under
  the key \<^verbatim>\<open>argument-hint\<close> and stored as the command's argument hint. The key pattern
  of the parser is \<^verbatim>\<open>\w+\<close>, which no hyphenated key matches: for every document the
  parsed mapping has no entry for \<^verbatim>\<open>argument-hint\<close>, and the argument hint of every
  command is the empty string, as for the document of the last conjunct.
\<close>

theorem argument_hint_never_parsed:
  "parseYamlFrontmatter text (str ''argument-hint'') = None
   \<and> argumentHint (commandOf sc f text) = Str []
   \<and> argumentHint (commandOf Local
        \<lparr>fileName = str ''c.md'', stem = str ''c'', relPath = str ''.claude/commands/c.md'',
          content = None\<rparr>
        (str ''---\<newline>argument-hint: [file]\<newline>---\<newline>'')) = Str []"
proof -
  have "\<not> wordKey (str ''argument-hint'')"
    by (simp add: wordKey_def str_def isWord_def)
  then have n: "parseYamlFrontmatter d (str ''argument-hint'') = None" for d
    using parseYamlFrontmatter_wordKey [of d "str ''argument-hint''"]
    by (cases "parseYamlFrontmatter d (str ''argument-hint'')") auto
  then show ?thesis
    by (simp add: commandOf_def getProp_def orElse_def truthy_def Let_def)
qed

subsection \<open>A delimiter line at the very end of the document\<close>

lemma closing_closesAt:
  assumes "lit (NL # str ''---'') s4 (\<lambda>s5. starG isSpace s5 (\<lambda>s6.
       cls (\<lambda>c. c = NL) s6 (\<lambda>s7. Some (g, s7)))) = Some r"
  shows "closesAt s4"
proof -
  from lit_Some [OF assms] obtain s5 where s4: "s4 = (NL # str ''---'') @ s5"
    and 1: "starG isSpace s5 (\<lambda>s6. cls (\<lambda>c. c = NL) s6 (\<lambda>s7. Some (g, s7))) = Some r"
    by blast
  from starG_Some [OF 1] obtain ws s6 where s5: "s5 = ws @ s6" and ws: "\<forall>c \<in> set ws. isSpace c"
    and 2: "cls (\<lambda>c. c = NL) s6 (\<lambda>s7. Some (g, s7)) = Some r"
    by blast
  from cls_Some [OF 2] obtain s7 where s6: "s6 = NL # s7"
    by blast
  have "cls (\<lambda>c. c = NL) s6 (\<lambda>s7. Some ()) \<noteq> None"
    by (simp add: s6)
  with ws have "starG isSpace (ws @ s6) (\<lambda>s6. cls (\<lambda>c. c = NL) s6 (\<lambda>s7. Some ())) \<noteq> None"
    by (rule starG_found)
  then show ?thesis
    unfolding closesAt_def s4 s5 lit_append .
qed

lemma starLcap_no_closing:
  "\<not> hasClosing s \<Longrightarrow>
   starLcap P acc s (\<lambda>g s4. lit (NL # str ''---'') s4 (\<lambda>s5. starG isSpace s5 (\<lambda>s6.
       cls (\<lambda>c. c = NL) s6 (\<lambda>s7. Some (g, s7))))) = None"
proof (induction s arbitrary: acc)
  case Nil
  then show ?case by simp
next
  case (Cons a s)
  have "lit (NL # str ''---'') (a # s) (\<lambda>s5. starG isSpace s5 (\<lambda>s6.
       cls (\<lambda>c. c = NL) s6 (\<lambda>s7. Some (acc, s7)))) = None"
    using Cons.prems closing_closesAt [of "a # s" acc]
    by (cases "lit (NL # str ''---'') (a # s) (\<lambda>s5. starG isSpace s5 (\<lambda>s6.
       cls (\<lambda>c. c = NL) s6 (\<lambda>s7. Some (acc, s7))))") auto
  moreover have "\<not> hasClosing s" using Cons.prems by simp
  ultimately show ?case using Cons.IH by simp
qed

lemma hasClosing_append: "hasClosing s \<Longrightarrow> hasClosing (p @ s)"
  by (induction p) simp_all

lemma yamlPattern_no_closing:
  assumes "\<not> hasClosing doc"
  shows "yamlPattern doc = None"
proof (rule ccontr)
  assume "yamlPattern doc \<noteq> None"
  then obtain r where r: "yamlPattern doc = Some r" by blast
  from lit_Some [OF r [unfolded yamlPattern_def]] obtain s1 where
    c: "doc = str ''---'' @ s1" and
    1: "starG isSpace s1 (\<lambda>s2. cls (\<lambda>c. c = NL) s2 (\<lambda>s3. starLcap isAny [] s3 (\<lambda>g s4.
          lit (NL # str ''---'') s4 (\<lambda>s5. starG isSpace s5 (\<lambda>s6.
          cls (\<lambda>c. c = NL) s6 (\<lambda>s7. Some (g, s7))))))) = Some r"
    by blast
  from starG_Some [OF 1] obtain ws s2 where s1: "s1 = ws @ s2" and
    2: "cls (\<lambda>c. c = NL) s2 (\<lambda>s3. starLcap isAny [] s3 (\<lambda>g s4.
          lit (NL # str ''---'') s4 (\<lambda>s5. starG isSpace s5 (\<lambda>s6.
          cls (\<lambda>c. c = NL) s6 (\<lambda>s7. Some (g, s7)))))) = Some r"
    by blast
  from cls_Some [OF 2] obtain c0 s3 where s2: "s2 = c0 # s3" and
    3: "starLcap isAny [] s3 (\<lambda>g s4.
          lit (NL # str ''---'') s4 (\<lambda>s5. starG isSpace s5 (\<lambda>s6.
          cls (\<lambda>c. c = NL) s6 (\<lambda>s7. Some (g, s7))))) = Some r"
    by blast
  have "doc = (str ''---'' @ ws @ [c0]) @ s3"
    by (simp add: c s1 s2)
  with assms hasClosing_append have "\<not> hasClosing s3" by metis
  from starLcap_no_closing [OF this] 3 show False by simp
qed

lemma closesAt_Cons:
  "closesAt (c # cs) \<Longrightarrow> c = NL \<and> startsWith cs (str ''---'')"
  by (cases cs; cases "tl cs"; cases "tl (tl cs)")
     (auto simp: closesAt_def str_def split: if_splits)

lemma no_closing_before_end:
  "\<not> includesStr rest (NL # str ''---'') \<Longrightarrow> \<not> hasClosing (rest @ NL # str ''---'')"
proof (induction rest)
  case Nil
  show ?case
    by (simp add: closesAt_def str_def NL_def)
next
  case (Cons c cs)
  from Cons.prems have n: "\<not> startsWith (c # cs) (NL # str ''---'')"
    and r: "\<not> includesStr cs (NL # str ''---'')"
    by simp_all
  have "\<not> closesAt (c # cs @ NL # str ''---'')"
  proof
    assume "closesAt (c # cs @ NL # str ''---'')"
    then have "c = NL" and s: "startsWith (cs @ NL # str ''---'') (str ''---'')"
      using closesAt_Cons by blast+
    from s n \<open>c = NL\<close> show False
      by (cases cs; cases "tl cs"; cases "tl (tl cs)") (auto simp: str_def NL_def)
  qed
  with Cons.IH [OF r] show ?case by simp
qed

text \<open>
  C10. A document that ends right after its closing delimiter line, with no newline
  after it: \<^verbatim>\<open>---\<close>, then a text \<open>rest\<close> in which no line starts with \<^verbatim>\<open>---\<close>, then a
  newline and \<^verbatim>\<open>---\<close>. The parser returns the empty mapping and the body extractor
  returns the whole document, trimmed (which leaves it as it is), delimiter lines
  included.
\<close>

theorem unterminated_front_matter:
  assumes "\<not> includesStr rest (NL # str ''---'')"
  shows "parseYamlFrontmatter (str ''---'' @ rest @ NL # str ''---'') = Map.empty
    \<and> extractBodyContent (str ''---'' @ rest @ NL # str ''---'')
        = trim (str ''---'' @ rest @ NL # str ''---'')
    \<and> trim (str ''---'' @ rest @ NL # str ''---'') = str ''---'' @ rest @ NL # str ''---''"
proof -
  have "\<not> hasClosing (rest @ NL # str ''---'')"
    using assms by (rule no_closing_before_end)
  then have "\<not> hasClosing (str ''---'' @ rest @ NL # str ''---'')"
    by (simp add: str_def closesAt_def NL_def)
  then have y: "yamlPattern (str ''---'' @ rest @ NL # str ''---'') = None"
    by (rule yamlPattern_no_closing)
  have t: "trim (str ''---'' @ rest @ NL # str ''---'') = str ''---'' @ rest @ NL # str ''---''"
    by (simp add: trim_def str_def isSpace_def)
  show ?thesis
    by (simp add: parseYamlFrontmatter_def extractBodyContent_def y t)
qed

theorem unterminated_front_matter_witness:
  "\<not> includesStr (str ''\<newline>name: x'') (NL # str ''---'')
   \<and> parseYamlFrontmatter (str ''---\<newline>name: x\<newline>---'') = Map.empty
   \<and> extractBodyContent (str ''---\<newline>name: x\<newline>---'') = str ''---\<newline>name: x\<newline>---''
   \<and> parseYamlFrontmatter (str ''---\<newline>name: x\<newline>---\<newline>'') (str ''name'') = Some (Str (str ''x''))"
proof -
  have h: "\<not> includesStr (str ''\<newline>name: x'') (NL # str ''---'')"
    by (simp add: str_def NL_def)
  have e: "str ''---'' @ str ''\<newline>name: x'' @ NL # str ''---'' = str ''---\<newline>name: x\<newline>---''"
    by (simp add: str_def NL_def)
  have p: "parseYamlFrontmatter (str ''---\<newline>name: x\<newline>---\<newline>'') (str ''name'') = Some (Str (str ''x''))"
    by (simp add: parseYamlFrontmatter_def yamlPattern_def str_def NL_def isSpace_def isAny_def
          parseBlock_def parseLine_def initState_def kvMatch_def listMatch_def plusG_def eos_def
          isWord_def isDot_def COLON_def HYPHEN_def trim_def keySet_def flush_def assign_def
          unquote_def endsWith_def DQUOTE_def SQUOTE_def)
  show ?thesis
    using unterminated_front_matter [OF h] h p unfolding e by simp
qed

subsection \<open>A key with an empty value and no list items\<close>

lemma isWord_not_isSpace: "isWord c \<Longrightarrow> \<not> isSpace c"
  unfolding isWord_def isSpace_def by (auto simp: word_le_nat_alt)

lemma trim_Nil_iff: "trim s = [] \<longleftrightarrow> (\<forall>c \<in> set s. isSpace c)"
proof
  assume t: "trim s = []"
  show "\<forall>c \<in> set s. isSpace c"
  proof (cases "dropWhile isSpace s")
    case Nil
    then show ?thesis by (metis dropWhile_eq_Nil_conv)
  next
    case (Cons a as)
    then have "\<not> isSpace a" by (metis hd_dropWhile list.sel(1) list.distinct(1))
    moreover from t Cons have "\<forall>c \<in> set (a # as). isSpace c"
      by (simp add: trim_def)
    ultimately show ?thesis by simp
  qed
next
  assume "\<forall>c \<in> set s. isSpace c"
  then have d: "dropWhile isSpace s = []" by simp
  show "trim s = []" unfolding trim_def d by simp
qed

lemma kvMatch_prefix:
  assumes "kvMatch line = Some (key, v)"
  shows "\<exists>rest. line = key @ rest"
proof -
  from assms obtain g rest where l: "line = g @ rest"
    and k: "cls (\<lambda>c. c = COLON) rest (\<lambda>s2. starG isSpace s2 (\<lambda>s3.
              starGcap isDot [] s3 (\<lambda>v s4. eos s4 (g, v)))) = Some (key, v)"
    unfolding kvMatch_def by (blast dest: plusGcap_Some)
  from cls_Some [OF k] obtain s2 where
    "starG isSpace s2 (\<lambda>s3. starGcap isDot [] s3 (\<lambda>v s4. eos s4 (g, v))) = Some (key, v)"
    by blast
  from starG_Some [OF this] obtain s3 where
    "starGcap isDot [] s3 (\<lambda>v s4. eos s4 (g, v)) = Some (key, v)"
    by blast
  from starGcap_Some [OF this] obtain v' s4 where "eos s4 (g, [] @ v') = Some (key, v)"
    by blast
  then have "key = g"
    by (auto simp: eos_def split: if_splits)
  with l show ?thesis by blast
qed

lemma kvMatch_not_blank:
  assumes "kvMatch line = Some (key, v)"
  shows "trim line \<noteq> []"
proof -
  from kvMatch_key [OF assms] obtain c cs where key: "key = c # cs" and "isWord c"
    by (cases key) auto
  then have "\<not> isSpace c" by (simp add: isWord_not_isSpace)
  moreover from kvMatch_prefix [OF assms] key have "c \<in> set line" by auto
  ultimately show ?thesis by (auto simp: trim_Nil_iff)
qed

lemma kvMatch_not_listMatch:
  assumes "kvMatch line = Some (key, v)"
  shows "listMatch line = None"
proof -
  from kvMatch_key [OF assms] obtain c cs where key: "key = c # cs" and "isWord c"
    by (cases key) auto
  then have "\<not> isSpace c" by (simp add: isWord_not_isSpace)
  moreover from kvMatch_prefix [OF assms] key obtain rest where "line = c # rest" by auto
  ultimately show ?thesis by (simp add: listMatch_def plusG_def)
qed

lemma assign_other: "k' \<noteq> k \<Longrightarrow> assign m k' v k = m k"
  by (simp add: assign_def)

lemma flush_tidy: "tidy st \<Longrightarrow> currentList (flush st) = []"
  by (cases "currentKey st") (auto simp: flush_def tidy_def keySet_def)

lemma parseLine_kv:
  assumes "kvMatch line = Some (key, raw)"
  shows "parseLine st line =
     (if trim raw \<noteq> []
      then (flush st)\<lparr>result := assign (result (flush st)) key (Str (unquote (trim raw))),
                      currentKey := None\<rparr>
      else (flush st)\<lparr>currentKey := Some key\<rparr>)"
  using assms kvMatch_not_blank [OF assms] kvMatch_not_listMatch [OF assms]
  by (simp add: parseLine_def Let_def)

lemma flush_fields:
  "currentKey (flush st) = currentKey st"
  "currentKey st \<noteq> Some k \<Longrightarrow> result st k = None \<Longrightarrow> result (flush st) k = None"
  "currentList st = [] \<Longrightarrow> flush st = st"
  by (auto simp: flush_def assign_def keySet_def split: option.splits)

lemma absent_parseLine:
  assumes "absent k st" and "\<not> declares k line"
  shows "absent k (parseLine st line)"
proof (cases "kvMatch line")
  case None
  with assms(1) show ?thesis
    by (auto simp: parseLine_def absent_def tidy_def keySet_def split: option.splits)
next
  case (Some kv)
  obtain key raw where kv: "kv = (key, raw)" by (cases kv)
  with Some assms(2) have ne: "key \<noteq> k" by (simp add: declares_def)
  have key: "key \<noteq> []" using kvMatch_key [of line key raw] Some kv by simp
  have t: "tidy st" and r: "result st k = None" and c: "currentKey st \<noteq> Some k"
    using assms(1) by (simp_all add: absent_def)
  have fl: "currentList (flush st) = []"
    using t by (rule flush_tidy)
  have fr: "result (flush st) k = None"
    using c r by (rule flush_fields(2))
  show ?thesis
    unfolding parseLine_kv [OF Some [unfolded kv]]
    using fl fr ne key by (simp add: absent_def tidy_def assign_other flush_fields(1))
qed

lemma absent_lines:
  "absent k st \<Longrightarrow> \<forall>x \<in> set xs. \<not> declares k x \<Longrightarrow> absent k (foldl parseLine st xs)"
  by (induction xs arbitrary: st) (simp_all add: absent_parseLine)

lemma pending_parseLine_dangling:
  assumes "absent k st" and "kvMatch line = Some (k, raw)" and "trim raw = []"
  shows "pending k (parseLine st line)"
proof -
  have t: "tidy st" and r: "result st k = None" and c: "currentKey st \<noteq> Some k"
    using assms(1) by (simp_all add: absent_def)
  have fl: "currentList (flush st) = []"
    using t by (rule flush_tidy)
  have fr: "result (flush st) k = None"
    using c r by (rule flush_fields(2))
  show ?thesis
    unfolding parseLine_kv [OF assms(2)] using assms(3) fl fr by (simp add: pending_def)
qed

lemma pending_parseLine_other:
  assumes "pending k st" and "kvMatch line = None" and "listMatch line = None"
  shows "parseLine st line = st"
  using assms by (simp add: parseLine_def)

lemma pending_parseLine_next:
  assumes "pending k st" and "kvMatch line = Some (key, raw)" and "key \<noteq> k"
  shows "absent k (parseLine st line)"
proof -
  have key: "key \<noteq> []" using kvMatch_key [OF assms(2)] by simp
  have f: "flush st = st" using assms(1) by (simp add: flush_fields(3) pending_def)
  show ?thesis
    unfolding parseLine_kv [OF assms(2)] f
    using assms(1,3) key by (simp add: pending_def absent_def tidy_def assign_other)
qed

lemma pending_lines:
  assumes "pending k st"
    and "\<forall>x \<in> set post. \<not> declares k x"
    and "\<forall>x \<in> set (takeWhile (\<lambda>x. kvMatch x = None) post). listMatch x = None"
  shows "pending k (foldl parseLine st post) \<or> absent k (foldl parseLine st post)"
  using assms
proof (induction post arbitrary: st)
  case Nil
  then show ?case by simp
next
  case (Cons x post)
  show ?case
  proof (cases "kvMatch x")
    case None
    with Cons.prems(3) have "listMatch x = None" by simp
    with Cons.prems(1) None have "parseLine st x = st"
      by (simp add: pending_parseLine_other)
    moreover have "\<forall>x \<in> set (takeWhile (\<lambda>x. kvMatch x = None) post). listMatch x = None"
      using Cons.prems(3) None by simp
    ultimately show ?thesis
      using Cons.IH [of st] Cons.prems(1,2) by simp
  next
    case (Some kv)
    obtain key raw where kv: "kv = (key, raw)" by (cases kv)
    with Some Cons.prems(2) have "key \<noteq> k" by (simp add: declares_def)
    with Cons.prems(1) Some kv have "absent k (parseLine st x)"
      by (simp add: pending_parseLine_next)
    then have "absent k (foldl parseLine (parseLine st x) post)"
      using Cons.prems(2) by (simp add: absent_lines)
    then show ?thesis by simp
  qed
qed

lemma tidy_parseLine:
  assumes "tidy st"
  shows "tidy (parseLine st line)"
proof (cases "kvMatch line")
  case None
  with assms show ?thesis
    by (auto simp: parseLine_def tidy_def keySet_def split: option.splits)
next
  case (Some kv)
  obtain key raw where kv: "kv = (key, raw)" by (cases kv)
  have key: "key \<noteq> []" using kvMatch_key [of line key raw] Some kv by simp
  have fl: "currentList (flush st) = []"
    using assms by (rule flush_tidy)
  show ?thesis
    unfolding parseLine_kv [OF Some [unfolded kv]]
    using fl key by (simp add: tidy_def)
qed

lemma tidy_lines: "tidy st \<Longrightarrow> tidy (foldl parseLine st ls)"
  by (induction ls arbitrary: st) (simp_all add: tidy_parseLine)

lemma skipped_lines:
  "\<forall>x \<in> set ls. kvMatch x = None \<and> listMatch x = None \<Longrightarrow> foldl parseLine st ls = st"
  by (induction ls) (simp_all add: parseLine_def)

lemma parseLine_after_dangling:
  assumes "tidy st" and "kvMatch line = Some (key, raw)"
  shows "parseLine ((flush st)\<lparr>currentKey := Some k\<rparr>) line = parseLine st line"
proof -
  have fl: "currentList (flush st) = []"
    using assms(1) by (rule flush_tidy)
  then have f: "flush ((flush st)\<lparr>currentKey := Some k\<rparr>) = (flush st)\<lparr>currentKey := Some k\<rparr>"
    by (simp add: flush_fields(3))
  show ?thesis
    unfolding parseLine_kv [OF assms(2)] f by simp
qed

lemma parseBlock_flush:
  "parseBlock b = result (flush (foldl parseLine initState (splitOn NL b)))"
  by (simp add: parseBlock_def flush_def Let_def)

lemma dangling_line_no_effect:
  assumes t: "tidy st"
    and l: "kvMatch line = Some (k, raw)" "trim raw = []"
    and s: "\<forall>x \<in> set (takeWhile (\<lambda>x. kvMatch x = None) post). listMatch x = None"
  shows "result (flush (foldl parseLine (parseLine st line) post))
       = result (flush (foldl parseLine st post))"
proof -
  let ?S = "takeWhile (\<lambda>x. kvMatch x = None) post"
  let ?R = "dropWhile (\<lambda>x. kvMatch x = None) post"
  let ?st1 = "(flush st)\<lparr>currentKey := Some k\<rparr>"
  have p: "post = ?S @ ?R" by simp
  have 1: "parseLine st line = ?st1"
    using l by (simp add: parseLine_kv)
  have sk: "\<forall>x \<in> set ?S. kvMatch x = None \<and> listMatch x = None"
    using s by (auto dest: set_takeWhileD)
  have a: "foldl parseLine ?st1 post = foldl parseLine ?st1 ?R"
    using skipped_lines [OF sk, of ?st1] by (subst p) (simp only: foldl_append)
  have b: "foldl parseLine st post = foldl parseLine st ?R"
    using skipped_lines [OF sk, of st] by (subst p) (simp only: foldl_append)
  have fl: "currentList (flush st) = []"
    using t by (rule flush_tidy)
  show ?thesis
  proof (cases ?R)
    case Nil
    have "flush ?st1 = ?st1" using fl by (simp add: flush_fields(3))
    then show ?thesis
      unfolding 1 a b Nil by simp
  next
    case (Cons x xs)
    then have "x \<in> set ?R" by simp
    then have "kvMatch x \<noteq> None"
      by (metis (mono_tags, lifting) Cons hd_dropWhile list.distinct(1) list.sel(1))
    then obtain key' raw' where "kvMatch x = Some (key', raw')" by auto
    then have "parseLine ?st1 x = parseLine st x"
      using t by (simp add: parseLine_after_dangling)
    then show ?thesis
      unfolding 1 a b Cons by simp
  qed
qed

text \<open>
  C6. In a front-matter block, let a line declare the key \<open>k\<close> with an empty value and
  let no list-item line follow it before the next key line (or the end of the block).
  Then the line is dropped: the block parses to the same mapping as the block without
  that line. So, unless another line declares \<open>k\<close>, the key has no entry in the parsed
  mapping, for the block and for every document whose front matter is that block. The
  parser is a total function, so nothing is raised.
\<close>

theorem dangling_key_dropped:
  assumes "splitOn NL block = pre @ line # post"
    and "kvMatch line = Some (k, raw)" and "trim raw = []"
    and "\<forall>x \<in> set (takeWhile (\<lambda>x. kvMatch x = None) post). listMatch x = None"
  shows "((\<forall>x \<in> set (pre @ post). \<not> declares k x) \<longrightarrow>
            parseBlock block k = None
            \<and> (\<forall>doc rest. yamlPattern doc = Some (block, rest) \<longrightarrow>
                  parseYamlFrontmatter doc k = None))
       \<and> (\<forall>block'. splitOn NL block' = pre @ post \<longrightarrow> parseBlock block' = parseBlock block)"
proof (intro conjI impI allI)
  assume d: "\<forall>x \<in> set (pre @ post). \<not> declares k x"
  have "absent k initState"
    by (simp add: absent_def tidy_def initState_def)
  then have "absent k (foldl parseLine initState pre)"
    using d by (simp add: absent_lines)
  then have "pending k (parseLine (foldl parseLine initState pre) line)"
    using assms(2,3) by (rule pending_parseLine_dangling)
  then have "pending k (foldl parseLine initState (splitOn NL block))
      \<or> absent k (foldl parseLine initState (splitOn NL block))"
    using pending_lines [of k _ post] d assms(4) by (simp add: assms(1))
  then show n: "parseBlock block k = None"
    by (auto simp: parseBlock_def Let_def pending_def absent_def keySet_def assign_def
             split: option.splits)
  show "parseYamlFrontmatter doc k = None" if "yamlPattern doc = Some (block, rest)" for doc rest
    using that n by (simp add: parseYamlFrontmatter_def)
next
  fix block'
  assume b: "splitOn NL block' = pre @ post"
  have "tidy (foldl parseLine initState pre)"
    by (rule tidy_lines) (simp add: tidy_def initState_def)
  from dangling_line_no_effect [OF this assms(2,3,4)]
  show "parseBlock block' = parseBlock block"
    by (simp add: parseBlock_flush assms(1) b)
qed

theorem dangling_key_dropped_witness:
  "splitOn NL (str ''tools:\<newline>model: opus'') = [] @ str ''tools:'' # [str ''model: opus'']
   \<and> kvMatch (str ''tools:'') = Some (str ''tools'', [])
   \<and> trim [] = ([] :: jsstring)
   \<and> \<not> declares (str ''tools'') (str ''model: opus'')
   \<and> takeWhile (\<lambda>x. kvMatch x = None) [str ''model: opus''] = []
   \<and> splitOn NL (str ''model: opus'') = [] @ [str ''model: opus'']
   \<and> parseBlock (str ''model: opus'') = parseBlock (str ''tools:\<newline>model: opus'')
   \<and> yamlPattern (str ''---\<newline>tools:\<newline>model: opus\<newline>---\<newline>'')
        = Some (str ''tools:\<newline>model: opus'', [])
   \<and> parseYamlFrontmatter (str ''---\<newline>tools:\<newline>model: opus\<newline>---\<newline>'') (str ''tools'') = None
   \<and> parseYamlFrontmatter (str ''---\<newline>tools:\<newline>model: opus\<newline>---\<newline>'')
        = [str ''model'' \<mapsto> Str (str ''opus'')]"
proof -
  have 1: "splitOn NL (str ''tools:\<newline>model: opus'') = [] @ str ''tools:'' # [str ''model: opus'']"
    by (simp add: str_def NL_def)
  have 2: "kvMatch (str ''tools:'') = Some (str ''tools'', [])"
    by (simp add: kvMatch_def str_def isWord_def COLON_def eos_def)
  have 3: "trim [] = ([] :: jsstring)"
    by (simp add: trim_def)
  have m: "kvMatch (str ''model: opus'') = Some (str ''model'', str ''opus'')"
    by (simp add: kvMatch_def str_def isWord_def isSpace_def isDot_def COLON_def eos_def)
  have 4: "\<forall>x \<in> set ([] @ [str ''model: opus'']). \<not> declares (str ''tools'') x"
    by (simp add: declares_def m) (simp add: str_def)
  have 5: "\<forall>x \<in> set (takeWhile (\<lambda>x. kvMatch x = None) [str ''model: opus'']). listMatch x = None"
    by (simp add: m)
  have 6: "yamlPattern (str ''---\<newline>tools:\<newline>model: opus\<newline>---\<newline>'')
        = Some (str ''tools:\<newline>model: opus'', [])"
    by (simp add: yamlPattern_def str_def NL_def isSpace_def isAny_def)
  have 7: "parseYamlFrontmatter (str ''---\<newline>tools:\<newline>model: opus\<newline>---\<newline>'')
        = [str ''model'' \<mapsto> Str (str ''opus'')]"
    by (simp add: parseYamlFrontmatter_def yamlPattern_def str_def NL_def isSpace_def isAny_def
          parseBlock_def parseLine_def initState_def kvMatch_def listMatch_def plusG_def eos_def
          isWord_def isDot_def COLON_def HYPHEN_def trim_def keySet_def flush_def assign_def
          unquote_def endsWith_def DQUOTE_def SQUOTE_def)
  have 8: "splitOn NL (str ''model: opus'') = [] @ [str ''model: opus'']"
    by (simp add: str_def NL_def)
  note T = dangling_key_dropped [OF 1 2 3 5]
  from T 4 6
  have 9: "parseYamlFrontmatter (str ''---\<newline>tools:\<newline>model: opus\<newline>---\<newline>'') (str ''tools'') = None"
    by blast
  from T 8
  have 10: "parseBlock (str ''model: opus'') = parseBlock (str ''tools:\<newline>model: opus'')"
    by blast
  have 11: "\<not> declares (str ''tools'') (str ''model: opus'')"
    using 4 by simp
  have 12: "takeWhile (\<lambda>x. kvMatch x = None) [str ''model: opus''] = []"
    by (simp add: m)
  show ?thesis
    by (intro conjI 1 2 3 11 12 8 10 6 9 7)
qed

subsection \<open>Trigger extraction\<close>

text \<open>
  C7. The claim is that the triggers of a skill are the hyphenated lines that follow the
  trigger heading, up to five. The section pattern ends with the lookahead
  \<^verbatim>\<open>(?=\n##|\Z)\<close>, where \<^verbatim>\<open>\Z\<close> matches the letter Z and not the end of the input. So
  a trigger section that is the last section of the body gives no triggers at all (first
  and second conjunct), the same section followed by another heading gives its items
  (third conjunct), and a letter z inside the section cuts it short (fourth conjunct).
\<close>

theorem triggers_last_section_lost:
  "extractTriggers (str ''## Triggers\<newline>- a\<newline>- b'') = []
   \<and> triggers (skillOf Local e (str ''---\<newline>name: x\<newline>---\<newline>## Triggers\<newline>- a\<newline>- b\<newline>'')) = []
   \<and> extractTriggers (str ''## Triggers\<newline>- a\<newline>- b\<newline>## Notes'') = [str ''a'', str ''b'']
   \<and> extractTriggers (str ''## Triggers\<newline>- analyze\<newline>- b'') = [str ''analy'']"
proof -
  have b: "extractBodyContent (str ''---\<newline>name: x\<newline>---\<newline>## Triggers\<newline>- a\<newline>- b\<newline>'')
      = str ''## Triggers\<newline>- a\<newline>- b''"
    by (simp add: extractBodyContent_def yamlPattern_def str_def NL_def isSpace_def isAny_def
          trim_def)
  have 1: "extractTriggers (str ''## Triggers\<newline>- a\<newline>- b'') = []"
    by (simp add: extractTriggers_def triggerMatch_def triggerAt_def triggerBody_def
          sectionEnd_def canon_def str_def NL_def isSpace_def isAny_def)
  have 2: "extractTriggers (str ''## Triggers\<newline>- a\<newline>- b\<newline>## Notes'') = [str ''a'', str ''b'']"
    by (simp add: extractTriggers_def triggerMatch_def triggerAt_def triggerBody_def
          sectionEnd_def canon_def str_def NL_def isSpace_def isAny_def trim_def
          stripHyphen_def HYPHEN_def)
  have 3: "extractTriggers (str ''## Triggers\<newline>- analyze\<newline>- b'') = [str ''analy'']"
    by (simp add: extractTriggers_def triggerMatch_def triggerAt_def triggerBody_def
          sectionEnd_def canon_def str_def NL_def isSpace_def isAny_def trim_def
          stripHyphen_def HYPHEN_def)
  show ?thesis
    using 1 2 3 by (simp add: skillOf_def Let_def b)
qed

subsection \<open>The list-field normalizer\<close>

lemma last_dropWhile: "dropWhile P xs \<noteq> [] \<Longrightarrow> last (dropWhile P xs) = last xs"
  by (induction xs) (auto split: if_splits)

lemma trim_ends:
  assumes "trim s \<noteq> []"
  shows "\<not> isSpace (hd (trim s)) \<and> \<not> isSpace (last (trim s))"
proof -
  let ?u = "dropWhile isSpace s"
  let ?w = "dropWhile isSpace (rev ?u)"
  have t: "trim s = rev ?w" by (simp add: trim_def)
  with assms have w: "?w \<noteq> []" by simp
  then have u: "?u \<noteq> []" by (metis dropWhile.simps(1) rev.simps(1))
  have "\<not> isSpace (hd ?w)" using w by (rule hd_dropWhile)
  moreover have "last ?w = last (rev ?u)" using w by (rule last_dropWhile)
  moreover have "\<not> isSpace (hd ?u)" using u by (rule hd_dropWhile)
  ultimately show ?thesis
    using w u by (simp add: t hd_rev last_rev)
qed

lemma trim_fixed:
  assumes "s \<noteq> []" "\<not> isSpace (hd s)" "\<not> isSpace (last s)"
  shows "trim s = s"
proof -
  from assms(1,2) have 1: "dropWhile isSpace s = s" by (cases s) auto
  from assms(1,3) have "rev s \<noteq> []" and "\<not> isSpace (hd (rev s))"
    by (simp_all add: hd_rev)
  then have 2: "dropWhile isSpace (rev s) = rev s"
    by (cases "rev s") simp_all
  show ?thesis by (simp add: trim_def 1 2)
qed

lemma trim_Nil: "trim [] = []"
  by (simp add: trim_def)

lemma trim_idem: "trim (trim s) = trim s"
proof (cases "trim s = []")
  case True
  then show ?thesis by (metis trim_Nil)
next
  case False
  with trim_ends [OF False] show ?thesis by (simp add: trim_fixed)
qed

lemma trim_leading: "isSpace c \<Longrightarrow> trim (c # s) = trim s"
  by (simp add: trim_def)

lemma splitOn_none: "sep \<notin> set x \<Longrightarrow> splitOn sep x = [x]"
  by (induction x) auto

lemma splitOn_sep: "sep \<notin> set x \<Longrightarrow> splitOn sep (x @ sep # rest) = x # splitOn sep rest"
  by (induction x) auto

lemma splitOn_prefix_join:
  assumes "COMMA \<notin> set sp"
  shows "ys \<noteq> [] \<Longrightarrow> \<forall>x \<in> set ys. COMMA \<notin> set x \<Longrightarrow> COMMA \<notin> set p \<Longrightarrow>
    splitOn COMMA (p @ joinWith (COMMA # sp) ys) = (p @ hd ys) # map (\<lambda>x. sp @ x) (tl ys)"
proof (induction ys arbitrary: p)
  case Nil
  then show ?case by simp
next
  case (Cons y ys)
  show ?case
  proof (cases ys)
    case Nil
    with Cons.prems show ?thesis by (simp add: splitOn_none)
  next
    case ys: (Cons z zs)
    have py: "COMMA \<notin> set (p @ y)" using Cons.prems by simp
    have "p @ joinWith (COMMA # sp) (y # ys)
        = (p @ y) @ COMMA # (sp @ joinWith (COMMA # sp) ys)"
      using ys by simp
    then have "splitOn COMMA (p @ joinWith (COMMA # sp) (y # ys))
        = (p @ y) # splitOn COMMA (sp @ joinWith (COMMA # sp) ys)"
      using splitOn_sep [OF py] by simp
    moreover have "splitOn COMMA (sp @ joinWith (COMMA # sp) ys)
        = (sp @ hd ys) # map (\<lambda>x. sp @ x) (tl ys)"
    proof (rule Cons.IH)
      show "ys \<noteq> []" using ys by simp
      show "\<forall>x \<in> set ys. COMMA \<notin> set x" using Cons.prems(2) by simp
      show "COMMA \<notin> set sp" by (rule assms)
    qed
    ultimately show ?thesis using ys by simp
  qed
qed

lemma splitOn_join:
  assumes "\<forall>x \<in> set xs. COMMA \<notin> set x" and "xs \<noteq> []"
  shows "splitOn COMMA (joinWith (str '', '') xs) = hd xs # map (\<lambda>x. str '' '' @ x) (tl xs)"
proof -
  have s: "str '', '' = COMMA # str '' ''" by (simp add: str_def COMMA_def)
  have c: "COMMA \<notin> set (str '' '')" by (simp add: str_def COMMA_def)
  show ?thesis
    using splitOn_prefix_join [OF c assms(2) assms(1), of "[]"] by (simp add: s)
qed

lemma parseListField_Str_items:
  "x \<in> set (parseListField (Str s)) \<Longrightarrow> x \<noteq> [] \<and> trim x = x"
proof -
  assume "x \<in> set (parseListField (Str s))"
  then have "x \<noteq> []" and "x \<in> trim ` set (splitOn COMMA s)"
    by (simp_all add: parseListField_def)
  then obtain y where "x = trim y" by blast
  with \<open>x \<noteq> []\<close> show ?thesis by (simp only: trim_idem) simp
qed

lemma parseListField_join:
  assumes h: "\<forall>x \<in> set xs. x \<noteq> [] \<and> trim x = x \<and> COMMA \<notin> set x"
  shows "parseListField (Str (joinWith (str '', '') xs)) = xs"
proof (cases xs)
  case Nil
  then show ?thesis by (simp add: parseListField_def trim_Nil)
next
  case (Cons y ys)
  have c: "\<forall>x \<in> set xs. COMMA \<notin> set x" using h by blast
  have s: "splitOn COMMA (joinWith (str '', '') xs) = y # map (\<lambda>x. str '' '' @ x) ys"
    using splitOn_join [OF c] Cons by simp
  have sp: "isSpace 0x20" by (simp add: isSpace_def)
  have t: "trim (str '' '' @ x) = x" if "x \<in> set ys" for x
  proof -
    have "trim (str '' '' @ x) = trim x"
      using trim_leading [OF sp, of x] by (simp add: str_def)
    moreover have "trim x = x" using h that Cons by simp
    ultimately show ?thesis by (simp only:)
  qed
  have "map (\<lambda>x. trim (str '' '' @ x)) ys = ys"
    by (rule map_idI) (rule t)
  moreover have "trim y = y" using h Cons by simp
  ultimately have m: "map trim (y # map (\<lambda>x. str '' '' @ x) ys) = y # ys"
    by (simp add: comp_def)
  have "\<forall>x \<in> set (y # ys). x \<noteq> []" using h Cons by simp
  then have f: "filter (\<lambda>x. x \<noteq> []) (y # ys) = y # ys"
    by (simp only: filter_id_conv)
  have "parseListField (Str (joinWith (str '', '') xs))
      = filter (\<lambda>x. x \<noteq> []) (map trim (splitOn COMMA (joinWith (str '', '') xs)))"
    by (simp add: parseListField_def)
  also have "\<dots> = y # ys"
    by (simp only: s m f)
  finally show ?thesis
    by (simp only: Cons)
qed

text \<open>
  C8, as amended. \<^verbatim>\<open>parseListField\<close> returns a list value as it is, without trimming
  or filtering its items; for a string value it returns the pieces between the commas,
  trimmed, without the empty ones; for an absent value it returns the empty list. A
  list of trimmed, non-empty items without commas, and the string of the same items
  joined by a comma and a space, give the same list.
\<close>

theorem parseListField_normalizes:
  "parseListField (Arr xs) = xs
   \<and> parseListField Undefined = []
   \<and> (\<forall>x \<in> set (parseListField (Str s)). x \<noteq> [] \<and> trim x = x)
   \<and> ((\<forall>x \<in> set xs. x \<noteq> [] \<and> trim x = x \<and> COMMA \<notin> set x) \<longrightarrow>
        parseListField (Str (joinWith (str '', '') xs)) = parseListField (Arr xs))"
proof (intro conjI ballI impI)
  show "parseListField (Arr xs) = xs" by (simp add: parseListField_def)
  show "parseListField Undefined = []" by (simp add: parseListField_def)
  show "x \<noteq> []" if "x \<in> set (parseListField (Str s))" for x
    using parseListField_Str_items [OF that] by simp
  show "trim x = x" if "x \<in> set (parseListField (Str s))" for x
    using parseListField_Str_items [OF that] by simp
  show "parseListField (Str (joinWith (str '', '') xs)) = parseListField (Arr xs)"
    if "\<forall>x \<in> set xs. x \<noteq> [] \<and> trim x = x \<and> COMMA \<notin> set x"
    using parseListField_join [OF that] by (simp add: parseListField_def)
qed

theorem parseListField_normalizes_witness:
  "COMMA \<notin> set (str ''a'') \<and> COMMA \<notin> set (str ''b'')
   \<and> trim (str ''a'') = str ''a'' \<and> trim (str ''b'') = str ''b''
   \<and> joinWith (str '', '') [str ''a'', str ''b''] = str ''a, b''
   \<and> parseListField (Str (str ''a, b'')) = [str ''a'', str ''b'']
   \<and> parseListField (Arr [str ''a'', str ''b'']) = [str ''a'', str ''b'']
   \<and> parseListField (Str (str '' x ,, y '')) = [str ''x'', str ''y'']"
proof -
  have c: "COMMA \<notin> set (str ''a'')" "COMMA \<notin> set (str ''b'')"
    by (simp_all add: str_def COMMA_def)
  have t: "trim (str ''a'') = str ''a''" "trim (str ''b'') = str ''b''"
    by (simp_all add: str_def trim_def isSpace_def)
  have n: "str ''a'' \<noteq> []" "str ''b'' \<noteq> []"
    by (simp_all add: str_def)
  have h: "\<forall>x \<in> set [str ''a'', str ''b'']. x \<noteq> [] \<and> trim x = x \<and> COMMA \<notin> set x"
    using c t n by simp
  have j: "joinWith (str '', '') [str ''a'', str ''b''] = str ''a, b''"
    by (simp add: str_def)
  have e: "parseListField (Str (str '' x ,, y '')) = [str ''x'', str ''y'']"
    by (simp add: parseListField_def str_def COMMA_def trim_def isSpace_def)
  note T = parseListField_normalizes [of "[str ''a'', str ''b'']" "str '' x ,, y ''"]
  from T have a: "parseListField (Arr [str ''a'', str ''b'']) = [str ''a'', str ''b'']"
    by (rule conjunct1)
  from T have "(\<forall>x \<in> set [str ''a'', str ''b'']. x \<noteq> [] \<and> trim x = x \<and> COMMA \<notin> set x) \<longrightarrow>
        parseListField (Str (joinWith (str '', '') [str ''a'', str ''b'']))
          = parseListField (Arr [str ''a'', str ''b''])"
    by (rule conjunct2 [THEN conjunct2, THEN conjunct2])
  then have "parseListField (Str (joinWith (str '', '') [str ''a'', str ''b'']))
          = parseListField (Arr [str ''a'', str ''b''])"
    using h by (rule mp)
  then have s: "parseListField (Str (str ''a, b'')) = [str ''a'', str ''b'']"
    by (simp only: j a)
  show ?thesis
    by (intro conjI c t j s a e)
qed

text \<open>
  C8 as stated fails: a list value is not normalized. The front matter below gives
  \<^verbatim>\<open>tools\<close> a list whose first item is the empty string (the line is a hyphen followed
  by two spaces), and the normalizer returns it with that empty item.
\<close>

theorem parseListField_keeps_empty_item:
  "parseListField (getProp
       (parseYamlFrontmatter (str ''---\<newline>tools:\<newline>  -  \<newline>  - a\<newline>---\<newline>''))
       (str ''tools''))
     = [[], str ''a'']"
  by (simp add: parseListField_def getProp_def
        parseYamlFrontmatter_def yamlPattern_def str_def NL_def isSpace_def isAny_def
        parseBlock_def parseLine_def initState_def kvMatch_def listMatch_def plusG_def eos_def
        isWord_def isDot_def COLON_def HYPHEN_def trim_def keySet_def flush_def assign_def
        unquote_def endsWith_def DQUOTE_def SQUOTE_def)

end
